theory Spec2Isabelle
  imports Complex_Main "HOL-Library.Log_Nat"
begin

section \<open>RoadTerm: terminal utilities (src/roadterm/term.py)\<close>

subsection \<open>Python values used by the module\<close>

text \<open>
  A Python \<open>str\<close> is a sequence of Unicode code points, and \<open>len\<close>, \<open>ljust\<close> and
  \<open>*\<close> count code points. The box, bar and spinner glyphs lie outside ASCII, so a
  string is modelled as the list of its code points. \<open>lit\<close> embeds an ASCII literal.
  Strings and ints are unbounded: running out of memory is not modelled.
\<close>

type_synonym ustr = "nat list"

definition lit :: "string \<Rightarrow> ustr" where
  "lit s = map of_char s"

datatype error = ValueError | IndexError | KeyError | OverflowError | ZeroDivisionError

text \<open>\<open>str(n)\<close> for an int: decimal digits, with a minus sign for a negative number.\<close>

function digits :: "int \<Rightarrow> ustr" where
  "digits n = (if n < 10 then [nat (48 + n)] else digits (n div 10) @ [nat (48 + n mod 10)])"
  by pat_completeness auto
termination
  by (relation "measure nat") auto

definition py_str :: "int \<Rightarrow> ustr" where
  "py_str i = (if i < 0 then 45 # digits (- i) else digits i)"

text \<open>
  \<open>int(s)\<close> for a string: an optional sign followed by ASCII decimal digits; anything
  else is a ValueError here. (Python also accepts surrounding white space, underscores
  between digits and non-ASCII digits; the module only ever passes the value of a
  \<open>Color\<close>, which is two ASCII digits.)
\<close>

definition is_digit :: "nat \<Rightarrow> bool" where
  "is_digit c = (48 \<le> c \<and> c \<le> 57)"

definition digits_value :: "ustr \<Rightarrow> int" where
  "digits_value ds = foldl (\<lambda>acc c. 10 * acc + int (c - 48)) 0 ds"

definition py_int :: "ustr \<Rightarrow> error + int" where
  "py_int s =
     (case s of
        [] \<Rightarrow> Inl ValueError
      | c # rest \<Rightarrow>
          if c = 45 \<or> c = 43 then
            (if rest \<noteq> [] \<and> list_all is_digit rest
             then Inr (if c = 45 then - digits_value rest else digits_value rest)
             else Inl ValueError)
          else if list_all is_digit s then Inr (digits_value s)
          else Inl ValueError)"

text \<open>\<open>sep.join(xs)\<close> and \<open>s.split(sep)\<close> for a one-character separator.\<close>

fun py_join :: "ustr \<Rightarrow> ustr list \<Rightarrow> ustr" where
  "py_join sep [] = []"
| "py_join sep [x] = x"
| "py_join sep (x # y # ys) = x @ sep @ py_join sep (y # ys)"

fun py_split :: "nat \<Rightarrow> ustr \<Rightarrow> ustr list" where
  "py_split c [] = [[]]"
| "py_split c (x # xs) =
     (if x = c then [] # py_split c xs
      else (case py_split c xs of
              [] \<Rightarrow> [[x]]
            | l # ls \<Rightarrow> (x # l) # ls))"

text \<open>
  \<open>s * n\<close> and \<open>s.ljust(n)\<close>. The int is converted to a C \<open>ssize_t\<close> (64 bits) first:
  \<open>OverflowError\<close> when it does not fit. A count below 1 gives the empty string, a
  count of 1 the string itself; otherwise \<open>OverflowError\<close> again when the length of the
  result would not fit. \<open>ljust\<close> pads with spaces on the right and never truncates.
\<close>

definition SSIZE_T_MAX :: int where
  "SSIZE_T_MAX = 2 ^ 63 - 1"

definition fits_ssize_t :: "int \<Rightarrow> bool" where
  "fits_ssize_t n = (- SSIZE_T_MAX - 1 \<le> n \<and> n \<le> SSIZE_T_MAX)"

definition py_repeat :: "ustr \<Rightarrow> int \<Rightarrow> error + ustr" where
  "py_repeat s n =
     (if \<not> fits_ssize_t n then Inl OverflowError
      else if n < 1 then Inr []
      else if n = 1 then Inr s
      else if int (length s) > SSIZE_T_MAX div n then Inl OverflowError
      else Inr (concat (replicate (nat n) s)))"

definition ljust :: "ustr \<Rightarrow> int \<Rightarrow> error + ustr" where
  "ljust s n =
     (if \<not> fits_ssize_t n then Inl OverflowError
      else if int (length s) \<ge> n then Inr s
      else Inr (s @ replicate (nat (n - int (length s))) 32))"

definition rjust :: "ustr \<Rightarrow> int \<Rightarrow> ustr" where
  "rjust s n = replicate (nat (n - int (length s))) 32 @ s"

subsection \<open>Color and Style\<close>

datatype Color =
    BLACK | RED | GREEN | YELLOW | BLUE | MAGENTA | CYAN | WHITE | DEFAULT
  | BRIGHT_BLACK | BRIGHT_RED | BRIGHT_GREEN | BRIGHT_YELLOW | BRIGHT_BLUE
  | BRIGHT_MAGENTA | BRIGHT_CYAN | BRIGHT_WHITE

fun color_value :: "Color \<Rightarrow> ustr" where
  "color_value BLACK = lit ''30''"
| "color_value RED = lit ''31''"
| "color_value GREEN = lit ''32''"
| "color_value YELLOW = lit ''33''"
| "color_value BLUE = lit ''34''"
| "color_value MAGENTA = lit ''35''"
| "color_value CYAN = lit ''36''"
| "color_value WHITE = lit ''37''"
| "color_value DEFAULT = lit ''39''"
| "color_value BRIGHT_BLACK = lit ''90''"
| "color_value BRIGHT_RED = lit ''91''"
| "color_value BRIGHT_GREEN = lit ''92''"
| "color_value BRIGHT_YELLOW = lit ''93''"
| "color_value BRIGHT_BLUE = lit ''94''"
| "color_value BRIGHT_MAGENTA = lit ''95''"
| "color_value BRIGHT_CYAN = lit ''96''"
| "color_value BRIGHT_WHITE = lit ''97''"

datatype Style =
  RESET | BOLD | DIM | ITALIC | UNDERLINE | BLINK | REVERSE | HIDDEN | STRIKETHROUGH

fun style_value :: "Style \<Rightarrow> ustr" where
  "style_value RESET = lit ''0''"
| "style_value BOLD = lit ''1''"
| "style_value DIM = lit ''2''"
| "style_value ITALIC = lit ''3''"
| "style_value UNDERLINE = lit ''4''"
| "style_value BLINK = lit ''5''"
| "style_value REVERSE = lit ''7''"
| "style_value HIDDEN = lit ''8''"
| "style_value STRIKETHROUGH = lit ''9''"

subsection \<open>Terminal\<close>

text \<open>
  The output stream is an object with \<open>isatty()\<close>, \<open>write\<close> and \<open>flush\<close>. The model
  keeps the text of every \<open>write\<close> call, in order; \<open>flush\<close> does not change what was
  written. A \<open>Terminal\<close> holds the stream and \<open>_is_tty\<close>, read once in \<open>__init__\<close>.
\<close>

record stream =
  isatty :: bool
  written :: "ustr list"

record Terminal =
  t_stream :: stream
  is_tty :: bool

definition ESC :: ustr where
  "ESC = [27]"

definition CSI :: ustr where
  "CSI = ESC @ lit ''[''"

text \<open>\<open>__init__(self, stream=None)\<close>; the first argument stands for \<open>sys.stdout\<close>.\<close>

definition Terminal_init :: "stream \<Rightarrow> stream option \<Rightarrow> Terminal" where
  "Terminal_init sys_stdout s =
     (let st = (case s of None \<Rightarrow> sys_stdout | Some x \<Rightarrow> x)
      in \<lparr>t_stream = st, is_tty = isatty st\<rparr>)"

definition write_out :: "Terminal \<Rightarrow> ustr \<Rightarrow> Terminal" where
  "write_out t tx = t\<lparr>t_stream := (t_stream t)\<lparr>written := written (t_stream t) @ [tx]\<rparr>\<rparr>"

definition writeln :: "Terminal \<Rightarrow> ustr \<Rightarrow> Terminal" where
  "writeln t tx = write_out t (tx @ [10])"

definition escape :: "Terminal \<Rightarrow> ustr \<Rightarrow> ustr" where
  "escape t code = (if is_tty t then CSI @ code else [])"

definition move :: "Terminal \<Rightarrow> int \<Rightarrow> int \<Rightarrow> Terminal" where
  "move t row col = write_out t (escape t (py_str (row + 1) @ lit '';'' @ py_str (col + 1) @ lit ''H''))"

definition clear :: "Terminal \<Rightarrow> Terminal" where
  "clear t = move (write_out t (escape t (lit ''2J''))) 0 0"

definition clear_line :: "Terminal \<Rightarrow> Terminal" where
  "clear_line t = write_out t (escape t (lit ''2K''))"

definition clear_to_end :: "Terminal \<Rightarrow> Terminal" where
  "clear_to_end t = write_out t (escape t (lit ''0J''))"

definition move_up :: "Terminal \<Rightarrow> int \<Rightarrow> Terminal" where
  "move_up t n = write_out t (escape t (py_str n @ lit ''A''))"

definition move_down :: "Terminal \<Rightarrow> int \<Rightarrow> Terminal" where
  "move_down t n = write_out t (escape t (py_str n @ lit ''B''))"

definition move_right :: "Terminal \<Rightarrow> int \<Rightarrow> Terminal" where
  "move_right t n = write_out t (escape t (py_str n @ lit ''C''))"

definition move_left :: "Terminal \<Rightarrow> int \<Rightarrow> Terminal" where
  "move_left t n = write_out t (escape t (py_str n @ lit ''D''))"

definition move_to_column :: "Terminal \<Rightarrow> int \<Rightarrow> Terminal" where
  "move_to_column t col = write_out t (escape t (py_str (col + 1) @ lit ''G''))"

definition save_cursor :: "Terminal \<Rightarrow> Terminal" where
  "save_cursor t = write_out t (escape t (lit ''s''))"

definition restore_cursor :: "Terminal \<Rightarrow> Terminal" where
  "restore_cursor t = write_out t (escape t (lit ''u''))"

definition hide_cursor :: "Terminal \<Rightarrow> Terminal" where
  "hide_cursor t = write_out t (escape t (lit ''?25l''))"

definition show_cursor :: "Terminal \<Rightarrow> Terminal" where
  "show_cursor t = write_out t (escape t (lit ''?25h''))"

definition set_title :: "Terminal \<Rightarrow> ustr \<Rightarrow> Terminal" where
  "set_title t title = write_out t (ESC @ lit '']0;'' @ title @ [7])"

definition bell :: "Terminal \<Rightarrow> Terminal" where
  "bell t = write_out t [7]"

definition style :: "Terminal \<Rightarrow> Style list \<Rightarrow> ustr" where
  "style t styles =
     (if \<not> is_tty t then []
      else let codes = py_join (lit '';'') (map style_value styles)
           in CSI @ codes @ lit ''m'')"

definition fg :: "Terminal \<Rightarrow> Color \<Rightarrow> ustr" where
  "fg t color = (if \<not> is_tty t then [] else CSI @ color_value color @ lit ''m'')"

definition bg :: "Terminal \<Rightarrow> Color \<Rightarrow> error + ustr" where
  "bg t color =
     (if \<not> is_tty t then Inr []
      else (case py_int (color_value color) of
              Inl e \<Rightarrow> Inl e
            | Inr n \<Rightarrow> let code = py_str (n + 10) in Inr (CSI @ code @ lit ''m'')))"

definition rgb_fg :: "Terminal \<Rightarrow> int \<Rightarrow> int \<Rightarrow> int \<Rightarrow> ustr" where
  "rgb_fg t r g b =
     (if \<not> is_tty t then []
      else CSI @ lit ''38;2;'' @ py_str r @ lit '';'' @ py_str g @ lit '';'' @ py_str b @ lit ''m'')"

definition rgb_bg :: "Terminal \<Rightarrow> int \<Rightarrow> int \<Rightarrow> int \<Rightarrow> ustr" where
  "rgb_bg t r g b =
     (if \<not> is_tty t then []
      else CSI @ lit ''48;2;'' @ py_str r @ lit '';'' @ py_str g @ lit '';'' @ py_str b @ lit ''m'')"

definition reset :: "Terminal \<Rightarrow> ustr" where
  "reset t = (if \<not> is_tty t then [] else CSI @ lit ''0m'')"

text \<open>
  \<open>colored(text, fg=None, bg=None, *styles)\<close>. The tests \<open>if fg:\<close> and \<open>if bg:\<close> are
  truth tests: \<open>None\<close> is false, and a \<open>Color\<close>, being a \<open>str\<close>, is true when its value
  is not empty. \<open>if styles:\<close> tests a tuple for emptiness.
\<close>

definition truthy :: "Color option \<Rightarrow> bool" where
  "truthy c = (case c of None \<Rightarrow> False | Some x \<Rightarrow> color_value x \<noteq> [])"

definition colored :: "Terminal \<Rightarrow> ustr \<Rightarrow> Color option \<Rightarrow> Color option \<Rightarrow> Style list \<Rightarrow> error + ustr" where
  "colored t tx fg_color bg_color styles =
     (if \<not> is_tty t then Inr tx
      else
        let prefix = [];
            prefix = (if styles \<noteq> [] then prefix @ style t styles else prefix);
            prefix = (case fg_color of
                        Some c \<Rightarrow> if truthy fg_color then prefix @ fg t c else prefix
                      | None \<Rightarrow> prefix)
        in (case bg_color of
              Some c \<Rightarrow>
                if truthy bg_color
                then (case bg t c of
                        Inl e \<Rightarrow> Inl e
                      | Inr b \<Rightarrow> Inr ((prefix @ b) @ tx @ reset t))
                else Inr (prefix @ tx @ reset t)
            | None \<Rightarrow> Inr (prefix @ tx @ reset t)))"

text \<open>All text written to the terminal's stream so far.\<close>

definition out_text :: "Terminal \<Rightarrow> ustr" where
  "out_text t = concat (written (t_stream t))"

subsection \<open>Numbers: int and float\<close>

text \<open>
  A Python \<open>float\<close> is an IEEE 754 binary64 value: a sign and a magnitude that is zero
  or \<open>m * 2^k\<close> with \<open>m < 2^53\<close> and \<open>-1074 \<le> k\<close>, below \<open>2^1024\<close>; or an infinity; or
  NaN. Every operation returns the representable value nearest to the exact result, a
  tie going to the even significand. The magnitude is kept as an exact rational.
\<close>

datatype pyfloat = Finite bool rat | Infinity bool | NaN

text \<open>\<open>ilog2 q\<close> is the integer \<open>e\<close> with \<open>2^e \<le> q < 2^(e+1)\<close>, for \<open>q > 0\<close>.\<close>

definition ilog2 :: "rat \<Rightarrow> int" where
  "ilog2 q =
     (let (a, b) = quotient_of q; d = bitlen a - bitlen b
      in if 2 powi d \<le> q then d else d - 1)"

text \<open>Nearest integer, a tie going to the even one.\<close>

definition rne :: "rat \<Rightarrow> int" where
  "rne x =
     (let f = \<lfloor>x\<rfloor>; r = x - of_int f
      in if r < 1 / 2 then f
         else if 1 / 2 < r then f + 1
         else if even f then f else f + 1)"

text \<open>
  The binary64 magnitude nearest to \<open>q \<ge> 0\<close>. The significand has 53 bits, so the last
  of them has exponent \<open>ilog2 q - 52\<close>, but not below \<open>-1074\<close> (subnormal numbers, and
  underflow to zero). \<open>round_mag\<close> is \<open>None\<close> when the rounded magnitude reaches
  \<open>2^1024\<close> (overflow).
\<close>

definition last_bit :: "rat \<Rightarrow> int" where
  "last_bit q = max (ilog2 q - 52) (- 1074)"

definition nearest :: "rat \<Rightarrow> rat" where
  "nearest q =
     (if q = 0 then 0
      else of_int (rne (q / 2 powi last_bit q)) * 2 powi last_bit q)"

definition round_mag :: "rat \<Rightarrow> rat option" where
  "round_mag q = (if nearest q < 2 powi 1024 then Some (nearest q) else None)"

text \<open>\<open>float(i)\<close>, also used when an int meets a float in arithmetic:
  \<open>OverflowError\<close> when the int is too large.\<close>

definition int_to_float :: "int \<Rightarrow> error + pyfloat" where
  "int_to_float i =
     (case round_mag \<bar>of_int i\<bar> of
        None \<Rightarrow> Inl OverflowError
      | Some m \<Rightarrow> Inr (Finite (i < 0) m))"

text \<open>\<open>a / b\<close> on ints: the float nearest to the exact quotient.\<close>

definition int_truediv :: "int \<Rightarrow> int \<Rightarrow> error + pyfloat" where
  "int_truediv a b =
     (if b = 0 then Inl ZeroDivisionError
      else case round_mag (\<bar>of_int a\<bar> / \<bar>of_int b\<bar>) of
             None \<Rightarrow> Inl OverflowError
           | Some m \<Rightarrow> Inr (Finite ((a < 0) \<noteq> (b < 0)) m))"

text \<open>\<open>x * y\<close> on floats: overflow gives an infinity, not an exception.\<close>

fun float_mul :: "pyfloat \<Rightarrow> pyfloat \<Rightarrow> pyfloat" where
  "float_mul (Finite s1 m1) (Finite s2 m2) =
     (case round_mag (m1 * m2) of
        None \<Rightarrow> Infinity (s1 \<noteq> s2)
      | Some m \<Rightarrow> Finite (s1 \<noteq> s2) m)"
| "float_mul (Finite s1 m1) (Infinity s2) = (if m1 = 0 then NaN else Infinity (s1 \<noteq> s2))"
| "float_mul (Infinity s1) (Finite s2 m2) = (if m2 = 0 then NaN else Infinity (s1 \<noteq> s2))"
| "float_mul (Infinity s1) (Infinity s2) = Infinity (s1 \<noteq> s2)"
| "float_mul NaN y = NaN"
| "float_mul x NaN = NaN"

text \<open>\<open>int(x)\<close> on a float truncates towards zero.\<close>

fun float_to_int :: "pyfloat \<Rightarrow> error + int" where
  "float_to_int (Finite s m) = Inr (if s then - \<lfloor>m\<rfloor> else \<lfloor>m\<rfloor>)"
| "float_to_int (Infinity s) = Inl OverflowError"
| "float_to_int NaN = Inl ValueError"

text \<open>\<open>format(x, "5.1f")\<close> on a float: the exact value rounded to one decimal (a tie
  going to the even digit), the sign kept even when the digits are all zero, padded
  on the left with spaces to at least five characters.\<close>

fun float_fixed1 :: "pyfloat \<Rightarrow> ustr" where
  "float_fixed1 (Finite s m) =
     (let n = rne (m * 10)
      in (if s then lit ''-'' else []) @ digits (n div 10) @ lit ''.'' @ digits (n mod 10))"
| "float_fixed1 (Infinity s) = (if s then lit ''-inf'' else lit ''inf'')"
| "float_fixed1 NaN = lit ''nan''"

text \<open>In \<open>update\<close>, \<open>pct\<close> is a float, or the int \<open>0\<close>.\<close>

datatype number = PyInt int | PyFloat pyfloat

fun num_mul :: "number \<Rightarrow> number \<Rightarrow> error + number" where
  "num_mul (PyInt a) (PyInt b) = Inr (PyInt (a * b))"
| "num_mul (PyInt a) (PyFloat y) =
     (case int_to_float a of Inl e \<Rightarrow> Inl e | Inr x \<Rightarrow> Inr (PyFloat (float_mul x y)))"
| "num_mul (PyFloat x) (PyInt b) =
     (case int_to_float b of Inl e \<Rightarrow> Inl e | Inr y \<Rightarrow> Inr (PyFloat (float_mul x y)))"
| "num_mul (PyFloat x) (PyFloat y) = Inr (PyFloat (float_mul x y))"

fun num_to_int :: "number \<Rightarrow> error + int" where
  "num_to_int (PyInt i) = Inr i"
| "num_to_int (PyFloat x) = float_to_int x"

fun format_5_1f :: "number \<Rightarrow> error + ustr" where
  "format_5_1f (PyInt i) =
     (case int_to_float i of Inl e \<Rightarrow> Inl e | Inr x \<Rightarrow> Inr (rjust (float_fixed1 x) 5))"
| "format_5_1f (PyFloat x) = Inr (rjust (float_fixed1 x) 5)"

subsection \<open>ProgressBar\<close>

record ProgressBar =
  pb_total :: int
  pb_width :: int
  pb_term :: Terminal
  pb_current :: int
  pb_started :: bool

text \<open>\<open>__init__(self, total, width=40, term=None)\<close>; the first argument stands for
  \<open>sys.stdout\<close>, which \<open>Terminal()\<close> binds.\<close>

definition ProgressBar_init :: "stream \<Rightarrow> int \<Rightarrow> int \<Rightarrow> Terminal option \<Rightarrow> ProgressBar" where
  "ProgressBar_init sys_stdout tot wid trm =
     \<lparr>pb_total = tot, pb_width = wid,
      pb_term = (case trm of None \<Rightarrow> Terminal_init sys_stdout None | Some t \<Rightarrow> t),
      pb_current = 0, pb_started = False\<rparr>"

definition FILLED :: ustr where
  "FILLED = [9608]"

definition UNFILLED :: ustr where
  "UNFILLED = [9617]"

text \<open>
  \<open>update(self, current=None, message="")\<close>. An exception leaves the object as it was
  when the exception was raised, so the error comes with that state.
\<close>

definition update :: "ProgressBar \<Rightarrow> int option \<Rightarrow> ustr \<Rightarrow> (error \<times> ProgressBar) + ProgressBar" where
  "update pb current message =
     (let pb = (case current of
                  Some c \<Rightarrow> pb\<lparr>pb_current := c\<rparr>
                | None \<Rightarrow> pb\<lparr>pb_current := pb_current pb + 1\<rparr>);
          pb = (if pb_started pb
                then pb\<lparr>pb_term := clear_line (move_up (pb_term pb) 1)\<rparr>
                else pb);
          pb = pb\<lparr>pb_started := True\<rparr>
      in case (if pb_total pb > 0
               then (case int_truediv (pb_current pb) (pb_total pb) of
                       Inl e \<Rightarrow> Inl e
                     | Inr q \<Rightarrow> Inr (PyFloat q))
               else Inr (PyInt 0)) of
           Inl e \<Rightarrow> Inl (e, pb)
         | Inr pct \<Rightarrow>
       (case num_mul (PyInt (pb_width pb)) pct of
           Inl e \<Rightarrow> Inl (e, pb)
         | Inr wp \<Rightarrow>
       (case num_to_int wp of
           Inl e \<Rightarrow> Inl (e, pb)
         | Inr filled \<Rightarrow>
       (case py_repeat FILLED filled of
           Inl e \<Rightarrow> Inl (e, pb)
         | Inr filled_part \<Rightarrow>
       (case py_repeat UNFILLED (pb_width pb - filled) of
           Inl e \<Rightarrow> Inl (e, pb)
         | Inr unfilled_part \<Rightarrow>
       (let bar = filled_part @ unfilled_part
        in case num_mul pct (PyInt 100) of
           Inl e \<Rightarrow> Inl (e, pb)
         | Inr p100 \<Rightarrow>
       (case format_5_1f p100 of
           Inl e \<Rightarrow> Inl (e, pb)
         | Inr shown \<Rightarrow>
       (let line = lit ''['' @ bar @ lit ''] '' @ shown @ lit ''%'';
            line = (if message \<noteq> [] then line @ lit '' '' @ message else line)
        in Inr (pb\<lparr>pb_term := writeln (pb_term pb) line\<rparr>)))))))))"

definition finish :: "ProgressBar \<Rightarrow> ustr \<Rightarrow> (error \<times> ProgressBar) + ProgressBar" where
  "finish pb message = update pb (Some (pb_total pb)) message"

subsection \<open>Spinner\<close>

record Spinner =
  sp_message :: ustr
  sp_term :: Terminal
  sp_frame :: int
  sp_running :: bool

definition FRAMES :: "ustr list" where
  "FRAMES = [[10251], [10265], [10297], [10296], [10300], [10292], [10278], [10279], [10247], [10255]]"

definition Spinner_init :: "stream \<Rightarrow> ustr \<Rightarrow> Terminal option \<Rightarrow> Spinner" where
  "Spinner_init sys_stdout message trm =
     \<lparr>sp_message = message,
      sp_term = (case trm of None \<Rightarrow> Terminal_init sys_stdout None | Some t \<Rightarrow> t),
      sp_frame = 0, sp_running = False\<rparr>"

text \<open>\<open>xs[i]\<close> on a list: a negative index counts from the end, an index out of range
  raises.\<close>

definition py_index :: "'a list \<Rightarrow> int \<Rightarrow> error + 'a" where
  "py_index xs i =
     (if 0 \<le> i \<and> i < int (length xs) then Inr (xs ! nat i)
      else if i < 0 \<and> - int (length xs) \<le> i then Inr (xs ! nat (int (length xs) + i))
      else Inl IndexError)"

text \<open>\<open>a % b\<close> on ints: the result has the sign of \<open>b\<close>, as \<open>mod\<close> on \<open>int\<close> has.\<close>

definition py_mod :: "int \<Rightarrow> int \<Rightarrow> error + int" where
  "py_mod a b = (if b = 0 then Inl ZeroDivisionError else Inr (a mod b))"

definition spin :: "Spinner \<Rightarrow> (error \<times> Spinner) + Spinner" where
  "spin sp =
     (let sp = sp\<lparr>sp_term := move_to_column (sp_term sp) 0\<rparr>;
          sp = sp\<lparr>sp_term := clear_line (sp_term sp)\<rparr>
      in case py_mod (sp_frame sp) (int (length FRAMES)) of
           Inl e \<Rightarrow> Inl (e, sp)
         | Inr i \<Rightarrow>
       (case py_index FRAMES i of
           Inl e \<Rightarrow> Inl (e, sp)
         | Inr frame \<Rightarrow>
       (let sp = sp\<lparr>sp_term := write_out (sp_term sp) (frame @ lit '' '' @ sp_message sp)\<rparr>
        in Inr (sp\<lparr>sp_frame := sp_frame sp + 1\<rparr>))))"

definition stop :: "Spinner \<Rightarrow> ustr option \<Rightarrow> Spinner" where
  "stop sp message =
     (let sp = sp\<lparr>sp_term := move_to_column (sp_term sp) 0\<rparr>;
          sp = sp\<lparr>sp_term := clear_line (sp_term sp)\<rparr>
      in case message of
           None \<Rightarrow> sp
         | Some m \<Rightarrow>
             if m \<noteq> [] then sp\<lparr>sp_term := writeln (sp_term sp) ([10003] @ lit '' '' @ m)\<rparr>
             else sp)"

text \<open>\<open>spin()\<close> called \<open>n\<close> times in a row, stopping at the first exception.\<close>

fun spin_times :: "nat \<Rightarrow> Spinner \<Rightarrow> (error \<times> Spinner) + Spinner" where
  "spin_times 0 sp = Inr sp"
| "spin_times (Suc n) sp =
     (case spin_times n sp of Inl e \<Rightarrow> Inl e | Inr sp' \<Rightarrow> spin sp')"

subsection \<open>Box\<close>

type_synonym glyphs = "ustr \<times> ustr \<times> ustr \<times> ustr \<times> ustr \<times> ustr"

definition STYLES :: "ustr \<rightharpoonup> glyphs" where
  "STYLES = map_of
     [(lit ''single'', ([9484], [9488], [9492], [9496], [9472], [9474])),
      (lit ''double'', ([9556], [9559], [9562], [9565], [9552], [9553])),
      (lit ''rounded'', ([9581], [9582], [9584], [9583], [9472], [9474])),
      (lit ''heavy'', ([9487], [9491], [9495], [9499], [9473], [9475]))]"

text \<open>\<open>max\<close> of a sequence raises on an empty one.\<close>

definition py_max :: "int list \<Rightarrow> error + int" where
  "py_max xs = (case xs of [] \<Rightarrow> Inl ValueError | x # rest \<Rightarrow> Inr (foldl max x rest))"

text \<open>The loop of \<open>draw\<close>: one bordered row per line, appended to \<open>result\<close>.\<close>

fun draw_rows :: "ustr \<Rightarrow> int \<Rightarrow> ustr list \<Rightarrow> ustr list \<Rightarrow> error + ustr list" where
  "draw_rows v inner_width [] result = Inr result"
| "draw_rows v inner_width (line # rest) result =
     (case ljust line inner_width of
        Inl e \<Rightarrow> Inl e
      | Inr padded \<Rightarrow> draw_rows v inner_width rest (result @ [v @ padded @ v]))"

text \<open>
  \<open>draw(content, width=None, style="single", term=None)\<close>, a static method; the first
  argument stands for \<open>sys.stdout\<close>. \<open>STYLES.get(style, STYLES["single"])\<close> looks the
  default up first. \<open>width or max_len + 4\<close> takes \<open>width\<close> unless it is \<open>None\<close> or \<open>0\<close>.
\<close>

definition draw :: "stream \<Rightarrow> ustr \<Rightarrow> int option \<Rightarrow> ustr \<Rightarrow> Terminal option \<Rightarrow> error + ustr" where
  "draw sys_stdout content width style_name trm =
     (let trm = (case trm of None \<Rightarrow> Terminal_init sys_stdout None | Some t \<Rightarrow> t)
      in case STYLES (lit ''single'') of
           None \<Rightarrow> Inl KeyError
         | Some dflt \<Rightarrow>
       (let (tl, tr, bl, br, h, v) = (case STYLES style_name of None \<Rightarrow> dflt | Some g \<Rightarrow> g);
            lines = py_split 10 content
        in case py_max (map (\<lambda>line. int (length line)) lines) of
             Inl e \<Rightarrow> Inl e
           | Inr max_len \<Rightarrow>
         (let width = (case width of
                         None \<Rightarrow> max_len + 4
                       | Some w \<Rightarrow> if w \<noteq> 0 then w else max_len + 4);
              inner_width = width - 2;
              result = []
          in case py_repeat h inner_width of
               Inl e \<Rightarrow> Inl e
             | Inr top_bar \<Rightarrow>
           (let result = result @ [tl @ top_bar @ tr]
            in case draw_rows v inner_width lines result of
                 Inl e \<Rightarrow> Inl e
               | Inr result \<Rightarrow>
             (case py_repeat h inner_width of
                 Inl e \<Rightarrow> Inl e
               | Inr bottom_bar \<Rightarrow>
               (let result = result @ [bl @ bottom_bar @ br]
                in Inr (py_join [10] result)))))))"

section \<open>Properties\<close>

subsection \<open>Terminal\<close>

declare digits.simps [simp del]

lemma out_text_write_out: "out_text (write_out t s) = out_text t @ s"
  by (simp add: out_text_def write_out_def)

lemma is_tty_write_out: "is_tty (write_out t s) = is_tty t"
  by (simp add: write_out_def)

lemma Terminal_init_is_tty: "is_tty (Terminal_init so (Some s)) = isatty s"
  by (simp add: Terminal_init_def)

lemma color_value_nonempty: "color_value c \<noteq> []"
  by (cases c) (simp_all add: lit_def)

lemma py_int_color: "py_int (color_value c) = Inr (digits_value (color_value c))"
  by (cases c) (simp_all add: py_int_def lit_def is_digit_def)

lemma py_str_color: "py_str (digits_value (color_value c)) = color_value c"
  by (cases c) (simp_all add: py_str_def digits_value_def lit_def digits.simps)

text \<open>
  Claim C1. On a terminal whose \<open>_is_tty\<close> is false (one constructed on a stream that is
  not a TTY, see \<open>Terminal_init_is_tty\<close>), the operations that write an escape sequence
  leave the text of the stream as it was, the operations that return one return the
  empty string, and \<open>colored\<close> returns its text unchanged, whatever the colours and
  styles.
\<close>

theorem non_tty_no_escape:
  assumes "\<not> is_tty t"
  shows "out_text (clear t) = out_text t
    \<and> out_text (clear_line t) = out_text t
    \<and> out_text (clear_to_end t) = out_text t
    \<and> out_text (move t row col) = out_text t
    \<and> out_text (move_up t n) = out_text t
    \<and> out_text (move_down t n) = out_text t
    \<and> out_text (move_left t n) = out_text t
    \<and> out_text (move_right t n) = out_text t
    \<and> out_text (move_to_column t col) = out_text t
    \<and> out_text (save_cursor t) = out_text t
    \<and> out_text (restore_cursor t) = out_text t
    \<and> out_text (hide_cursor t) = out_text t
    \<and> out_text (show_cursor t) = out_text t
    \<and> style t styles = []
    \<and> fg t c = []
    \<and> bg t c = Inr []
    \<and> rgb_fg t r g b = []
    \<and> rgb_bg t r g b = []
    \<and> reset t = []
    \<and> colored t tx fg_color bg_color styles = Inr tx"
  using assms
  by (simp add: clear_def clear_line_def clear_to_end_def move_def move_up_def move_down_def
      move_left_def move_right_def move_to_column_def save_cursor_def restore_cursor_def
      hide_cursor_def show_cursor_def style_def fg_def bg_def rgb_fg_def rgb_bg_def reset_def
      colored_def escape_def out_text_write_out is_tty_write_out)

theorem non_tty_no_escape_witness:
  "\<not> is_tty (Terminal_init \<lparr>isatty = True, written = []\<rparr> (Some \<lparr>isatty = False, written = [lit ''a'']\<rparr>))
   \<and> out_text (clear (Terminal_init \<lparr>isatty = True, written = []\<rparr> (Some \<lparr>isatty = False, written = [lit ''a'']\<rparr>))) = lit ''a''
   \<and> colored (Terminal_init \<lparr>isatty = True, written = []\<rparr> (Some \<lparr>isatty = False, written = [lit ''a'']\<rparr>))
         (lit ''X'') (Some RED) (Some BLUE) [BOLD] = Inr (lit ''X'')"
  using non_tty_no_escape [where t = "Terminal_init \<lparr>isatty = True, written = []\<rparr> (Some \<lparr>isatty = False, written = [lit ''a'']\<rparr>)"
      and tx = "lit ''X''" and fg_color = "Some RED" and bg_color = "Some BLUE" and styles = "[BOLD]"]
  by (simp add: Terminal_init_def out_text_def)

text \<open>
  Claim C2. On a TTY, \<open>colored\<close> returns the styles sequence (when styles are given),
  then the foreground sequence, then the background sequence (each when given), then
  the text, then the reset sequence \<open>ESC [ 0 m\<close>, always; and
  \<open>colored("X", fg=Color.RED)\<close> is \<open>ESC [ 31m X ESC [ 0m\<close>.
\<close>

theorem colored_on_tty:
  assumes "is_tty t"
  shows "colored t tx fg_color bg_color styles =
           Inr ((if styles = [] then [] else style t styles)
                @ (case fg_color of None \<Rightarrow> [] | Some c \<Rightarrow> fg t c)
                @ (case bg_color of None \<Rightarrow> []
                   | Some c \<Rightarrow> CSI @ py_str (digits_value (color_value c) + 10) @ lit ''m'')
                @ tx @ CSI @ lit ''0m'')
    \<and> (\<forall>c. bg t c = Inr (CSI @ py_str (digits_value (color_value c) + 10) @ lit ''m''))
    \<and> colored t (lit ''X'') (Some RED) None [] = Inr (ESC @ lit ''[31mX'' @ ESC @ lit ''[0m'')"
  using assms
  by (auto simp add: colored_def truthy_def color_value_nonempty bg_def py_int_color reset_def
      fg_def CSI_def lit_def split: option.splits)

theorem colored_on_tty_witness:
  "is_tty (Terminal_init \<lparr>isatty = True, written = []\<rparr> None)
   \<and> colored (Terminal_init \<lparr>isatty = True, written = []\<rparr> None) (lit ''ok'') (Some GREEN) (Some DEFAULT) [BOLD, UNDERLINE]
       = Inr (ESC @ lit ''[1;4m'' @ ESC @ lit ''[32m'' @ ESC @ lit ''[49m'' @ lit ''ok'' @ ESC @ lit ''[0m'')"
  using colored_on_tty [of "Terminal_init \<lparr>isatty = True, written = []\<rparr> None" "lit ''ok''" "Some GREEN" "Some DEFAULT" "[BOLD, UNDERLINE]"]
  by (simp add: Terminal_init_def style_def fg_def CSI_def ESC_def lit_def py_str_def digits_value_def digits.simps)

text \<open>
  Claim C6. On a TTY, for every colour, \<open>fg\<close> emits the number that the colour's value
  denotes and \<open>bg\<close> emits that number plus 10; for \<open>DEFAULT\<close> these are 39 and 49.
\<close>

theorem bg_is_fg_plus_10:
  assumes "is_tty t"
  shows "fg t c = CSI @ py_str (digits_value (color_value c)) @ lit ''m''
    \<and> bg t c = Inr (CSI @ py_str (digits_value (color_value c) + 10) @ lit ''m'')
    \<and> fg t DEFAULT = CSI @ lit ''39m''
    \<and> bg t DEFAULT = Inr (CSI @ lit ''49m'')"
proof -
  have "fg t DEFAULT = CSI @ lit ''39m''"
    using assms by (simp add: fg_def lit_def)
  moreover have "bg t DEFAULT = Inr (CSI @ lit ''49m'')"
    using assms
    by (simp add: bg_def py_int_def is_digit_def lit_def py_str_def digits_value_def digits.simps)
  ultimately show ?thesis
    using assms by (simp add: fg_def bg_def py_int_color py_str_color)
qed

theorem bg_is_fg_plus_10_witness:
  "is_tty (Terminal_init \<lparr>isatty = True, written = []\<rparr> None)
   \<and> fg (Terminal_init \<lparr>isatty = True, written = []\<rparr> None) BRIGHT_CYAN = ESC @ lit ''[96m''
   \<and> bg (Terminal_init \<lparr>isatty = True, written = []\<rparr> None) BRIGHT_CYAN = Inr (ESC @ lit ''[106m'')"
  using bg_is_fg_plus_10 [of "Terminal_init \<lparr>isatty = True, written = []\<rparr> None" BRIGHT_CYAN]
  by (simp add: Terminal_init_def CSI_def ESC_def lit_def py_str_def digits_value_def digits.simps)

text \<open>
  Claim C9. \<open>set_title\<close> writes \<open>ESC ]0; title BEL\<close> and \<open>bell\<close> writes \<open>BEL\<close> on every
  terminal, whether or not it is a TTY: neither looks at \<open>_is_tty\<close>.
\<close>

theorem set_title_bell_unconditional:
  "written (t_stream (set_title t title)) = written (t_stream t) @ [ESC @ lit '']0;'' @ title @ [7]]
   \<and> out_text (set_title t title) = out_text t @ [27] @ lit '']0;'' @ title @ [7]
   \<and> written (t_stream (bell t)) = written (t_stream t) @ [[7]]
   \<and> out_text (bell t) = out_text t @ [7]"
  by (simp add: set_title_def bell_def write_out_def out_text_def ESC_def)

subsection \<open>Spinner\<close>

lemma length_FRAMES: "length FRAMES = 10"
  by (simp add: FRAMES_def)

lemma spin_step:
  "spin sp = Inr (sp\<lparr>sp_term := write_out (clear_line (move_to_column (sp_term sp) 0))
                        (FRAMES ! nat (sp_frame sp mod 10) @ lit '' '' @ sp_message sp),
                     sp_frame := sp_frame sp + 1\<rparr>)"
  by (simp add: spin_def py_mod_def py_index_def length_FRAMES Let_def)

lemma spin_times_init:
  "\<exists>sp'. spin_times n (Spinner_init so msg trm) = Inr sp'
     \<and> sp_frame sp' = int n \<and> sp_message sp' = msg"
proof (induction n)
  case 0
  show ?case by (simp add: Spinner_init_def)
next
  case (Suc n)
  then obtain sp' where "spin_times n (Spinner_init so msg trm) = Inr sp'"
    and "sp_frame sp' = int n" and "sp_message sp' = msg" by blast
  then show ?case by (simp add: spin_step)
qed

text \<open>
  Claim C5. On a freshly constructed spinner, the \<open>n\<close>-th call of \<open>spin()\<close> (for
  \<open>n \<ge> 1\<close>) raises nothing, writes the frame \<open>FRAMES[(n - 1) mod 10]\<close> followed by a
  space and the message, and leaves the counter at \<open>n\<close>; call \<open>n + 10\<close> writes what
  call \<open>n\<close> wrote.
\<close>

theorem spin_nth_frame:
  assumes "1 \<le> n"
  shows "\<exists>sp1 sp2.
           spin_times n (Spinner_init so msg trm) = Inr sp1
         \<and> last (written (t_stream (sp_term sp1))) = FRAMES ! ((n - 1) mod 10) @ lit '' '' @ msg
         \<and> sp_frame sp1 = int n
         \<and> spin_times (n + 10) (Spinner_init so msg trm) = Inr sp2
         \<and> last (written (t_stream (sp_term sp2))) = last (written (t_stream (sp_term sp1)))"
proof -
  have step: "\<exists>sp'. spin_times (Suc k) (Spinner_init so msg trm) = Inr sp'
      \<and> last (written (t_stream (sp_term sp'))) = FRAMES ! (k mod 10) @ lit '' '' @ msg
      \<and> sp_frame sp' = int (Suc k)" for k
  proof -
    obtain sp0 where a: "spin_times k (Spinner_init so msg trm) = Inr sp0"
      and b: "sp_frame sp0 = int k" and c: "sp_message sp0 = msg"
      using spin_times_init by blast
    have "nat (int k mod 10) = k mod 10"
      by (simp add: nat_mod_distrib)
    then show ?thesis
      using a b c by (simp add: spin_step write_out_def)
  qed
  from assms obtain k where n: "n = Suc k"
    by (cases n) auto
  have "(k + 10) mod 10 = k mod 10"
    by simp
  then show ?thesis
    using step [of k] step [of "k + 10"] by (auto simp add: n)
qed

theorem spin_nth_frame_witness:
  "(1::nat) \<le> 3 \<and> (\<exists>sp1 sp2.
           spin_times 3 (Spinner_init \<lparr>isatty = False, written = []\<rparr> (lit ''go'') None) = Inr sp1
         \<and> last (written (t_stream (sp_term sp1))) = [10297] @ lit '' go''
         \<and> sp_frame sp1 = 3
         \<and> spin_times 13 (Spinner_init \<lparr>isatty = False, written = []\<rparr> (lit ''go'') None) = Inr sp2
         \<and> last (written (t_stream (sp_term sp2))) = last (written (t_stream (sp_term sp1))))"
  using spin_nth_frame [of 3 "\<lparr>isatty = False, written = []\<rparr>" "lit ''go''" None]
  by (simp add: FRAMES_def lit_def)

subsection \<open>Box\<close>

lemma replicate_num: "replicate (numeral k) x = x # replicate (pred_numeral k) x"
  by (simp add: numeral_eq_Suc)

lemma py_split_nonempty: "py_split c s \<noteq> []"
  by (induction s) (auto split: list.splits)

lemma py_split_no_sep: "l \<in> set (py_split c s) \<Longrightarrow> c \<notin> set l"
proof (induction s arbitrary: l)
  case Nil
  then show ?case by simp
next
  case (Cons x xs)
  show ?case
  proof (cases "x = c")
    case True
    with Cons show ?thesis by auto
  next
    case False
    obtain y ys where s: "py_split c xs = y # ys"
      using py_split_nonempty [of c xs] by (cases "py_split c xs") auto
    with Cons False show ?thesis by auto
  qed
qed

lemma py_split_single: "c \<notin> set x \<Longrightarrow> py_split c x = [x]"
  by (induction x) auto

lemma py_split_append: "c \<notin> set x \<Longrightarrow> py_split c (x @ c # r) = x # py_split c r"
  by (induction x) auto

lemma py_split_join:
  "xs \<noteq> [] \<Longrightarrow> \<forall>x \<in> set xs. c \<notin> set x \<Longrightarrow> py_split c (py_join [c] xs) = xs"
proof (induction "[c]" xs rule: py_join.induct)
  case 1
  then show ?case by simp
next
  case (2 x)
  then show ?case by (simp add: py_split_single)
next
  case (3 x y ys)
  then show ?case by (simp add: py_split_append)
qed

lemma py_max_Cons: "py_max (x # xs) = Inr (Max (set (x # xs)))"
proof -
  have "foldl max a ys = Max (set (a # ys))" for a :: int and ys
  proof (induction ys arbitrary: a)
    case Nil
    show ?case by simp
  next
    case (Cons y ys)
    have "Max (set (max a y # ys)) = Max (set (a # y # ys))"
      by (cases "ys = []") (simp_all add: max.assoc)
    with Cons show ?case by simp
  qed
  then show ?thesis by (simp add: py_max_def)
qed

lemma py_max_lengths:
  "py_max (map (\<lambda>l. int (length l)) (py_split c s))
     = Inr (Max (set (map (\<lambda>l. int (length l)) (py_split c s))))"
proof -
  obtain y ys where "py_split c s = y # ys"
    using py_split_nonempty [of c s] by (cases "py_split c s") auto
  then show ?thesis using py_max_Cons [of "int (length y)" "map (\<lambda>l. int (length l)) ys"] by simp
qed

lemma STYLES_single:
  "STYLES (lit ''single'') = Some ([9484], [9488], [9492], [9496], [9472], [9474])"
  by (simp add: STYLES_def lit_def)

lemma STYLES_glyphs:
  assumes "STYLES s = Some (a, b, c, d, h, v)"
  shows "10 \<notin> set a \<and> 10 \<notin> set b \<and> 10 \<notin> set c \<and> 10 \<notin> set d \<and> 10 \<notin> set h \<and> 10 \<notin> set v
    \<and> length h = 1"
  using assms by (auto simp add: STYLES_def split: if_splits)

lemma fits_ssize_t_iff: "fits_ssize_t n \<longleftrightarrow> - (2 ^ 63) \<le> n \<and> n < 2 ^ 63"
  by (auto simp add: fits_ssize_t_def SSIZE_T_MAX_def)

lemma py_repeat_single:
  assumes "fits_ssize_t n" "length s = 1"
  shows "py_repeat s n = Inr (concat (replicate (nat n) s))"
proof -
  have "1 \<le> SSIZE_T_MAX div n" if "1 < n"
  proof -
    have "n div n \<le> SSIZE_T_MAX div n"
      using assms(1) that by (intro zdiv_mono1) (simp_all add: fits_ssize_t_def)
    then show ?thesis
      using that by simp
  qed
  then have big: "\<not> int (length s) > SSIZE_T_MAX div n" if "1 < n"
    using that assms(2) by fastforce
  consider "n < 1" | "n = 1" | "1 < n"
    by linarith
  then show ?thesis
  proof cases
    case 1
    then show ?thesis using assms(1) by (simp add: py_repeat_def)
  next
    case 2
    then show ?thesis using assms(1) by (simp add: py_repeat_def)
  next
    case 3
    then show ?thesis using assms(1) big by (simp add: py_repeat_def)
  qed
qed

lemma py_repeat_too_long:
  assumes "\<not> fits_ssize_t n"
  shows "py_repeat s n = Inl OverflowError"
  using assms by (simp add: py_repeat_def)

lemma ljust_fits:
  assumes "fits_ssize_t n"
  shows "ljust s n = Inr (s @ replicate (nat (n - int (length s))) 32)"
  using assms by (simp add: ljust_def)

lemma draw_rows_fits:
  assumes "fits_ssize_t n"
  shows "draw_rows v n ls result =
     Inr (result @ map (\<lambda>l. v @ l @ replicate (nat (n - int (length l))) 32 @ v) ls)"
  using assms by (induction ls arbitrary: result) (simp_all add: ljust_fits)

text \<open>
  Claim C8, amended. Provided \<open>inner_width = (width or max_len + 4) - 2\<close> fits a 64-bit
  \<open>ssize_t\<close>, \<open>Box.draw\<close> raises nothing. With \<open>lines\<close> the content split at newlines
  and the six glyphs of the named style (of \<open>single\<close> for an unknown name), the result
  is the newline-joined list of the top border, one row per line (the line padded
  with spaces on the right up to \<open>inner_width\<close>, never cut), and the bottom border;
  split at newlines it gives back exactly these \<open>length lines + 2\<close> lines.
  \<open>Box.draw("ab\ncde", style="double")\<close> has inner width 5 and four lines in the
  double-line glyphs.
\<close>

theorem draw_shape:
  assumes "max_len = Max (set (map (\<lambda>l. int (length l)) (py_split 10 content)))"
    and "inner_width = (case width of None \<Rightarrow> max_len + 4
                        | Some w \<Rightarrow> if w = 0 then max_len + 4 else w) - 2"
    and "- (2 ^ 63) \<le> inner_width" and "inner_width < 2 ^ 63"
  shows "(let lines = py_split 10 content;
       (tl, tr, bl, br, h, v) =
          (case STYLES style_name of
             Some g \<Rightarrow> g
           | None \<Rightarrow> ([9484], [9488], [9492], [9496], [9472], [9474]));
       rows = map (\<lambda>l. v @ l @ replicate (nat (inner_width - int (length l))) 32 @ v) lines;
       border = concat (replicate (nat inner_width) h)
   in \<exists>res. draw so content width style_name trm = Inr res
        \<and> res = py_join [10] ([tl @ border @ tr] @ rows @ [bl @ border @ br])
        \<and> py_split 10 res = [tl @ border @ tr] @ rows @ [bl @ border @ br]
        \<and> length (py_split 10 res) = length lines + 2)
   \<and> draw so (lit ''ab'' @ [10] @ lit ''cde'') None (lit ''double'') trm =
       Inr (py_join [10]
             [[9556] @ replicate 5 9552 @ [9559],
              [9553] @ lit ''ab   '' @ [9553],
              [9553] @ lit ''cde  '' @ [9553],
              [9562] @ replicate 5 9552 @ [9565]])"
    (is "?shape \<and> ?example")
proof
  define lines where "lines = py_split 10 content"
  define g where "g = (case STYLES style_name of
             Some g \<Rightarrow> g
           | None \<Rightarrow> ([9484], [9488], [9492], [9496], [9472], [9474::nat]))"
  obtain gtl gtr gbl gbr h v where g: "g = (gtl, gtr, gbl, gbr, h, v)"
    by (cases g) auto
  define rows where "rows = map (\<lambda>l. v @ l @ replicate (nat (inner_width - int (length l))) 32 @ v) lines"
  define border where "border = concat (replicate (nat inner_width) h)"
  define result where "result = [gtl @ border @ gtr] @ rows @ [gbl @ border @ gbr]"
  have fits: "fits_ssize_t inner_width"
    using assms(3,4) by (simp add: fits_ssize_t_iff)
  have "\<exists>s. STYLES s = Some g"
    using STYLES_single by (auto simp add: g_def split: option.splits)
  then have glyphs: "10 \<notin> set gtl \<and> 10 \<notin> set gtr \<and> 10 \<notin> set gbl \<and> 10 \<notin> set gbr \<and> 10 \<notin> set h \<and> 10 \<notin> set v
      \<and> length h = 1"
    using STYLES_glyphs g by blast
  have pm: "py_max (map (\<lambda>l. int (length l)) (py_split 10 content)) = Inr max_len"
    by (simp add: py_max_lengths assms(1))
  have iw: "(case width of None \<Rightarrow> max_len + 4 | Some w \<Rightarrow> if w \<noteq> 0 then w else max_len + 4) - 2
      = inner_width"
    by (simp add: assms(2) split: option.splits)
  have gg: "(case STYLES style_name of None \<Rightarrow> ([9484], [9488], [9492], [9496], [9472], [9474])
      | Some g \<Rightarrow> g) = (gtl, gtr, gbl, gbr, h, v)"
    using g by (simp add: g_def split: option.splits)
  have rep: "py_repeat h inner_width = Inr border"
    using fits glyphs by (simp add: py_repeat_single border_def)
  have d: "draw so content width style_name trm = Inr (py_join [10] result)"
    by (simp add: draw_def STYLES_single pm gg Let_def iw rep draw_rows_fits [OF fits])
      (simp add: result_def rows_def lines_def)
  have "\<forall>x \<in> set result. 10 \<notin> set x"
    using glyphs py_split_no_sep [of _ 10 content]
    by (auto simp add: result_def rows_def border_def lines_def)
  moreover have "result \<noteq> []"
    by (simp add: result_def)
  ultimately have s: "py_split 10 (py_join [10] result) = result"
    by (rule py_split_join [rotated])
  have "length result = length lines + 2"
    by (simp add: result_def rows_def)
  with d s show ?shape
    unfolding Let_def lines_def [symmetric] g_def [symmetric] g
    by (simp add: result_def rows_def border_def)
next
  show ?example
    by (simp add: draw_def STYLES_def lit_def py_max_def py_repeat_def ljust_def Let_def
        fits_ssize_t_def SSIZE_T_MAX_def replicate_num)
qed

theorem draw_shape_witness:
  "(2::int) = Max (set (map (\<lambda>l. int (length l)) (py_split 10 (lit ''hi''))))
   \<and> (4::int) = (case Some 6 of None \<Rightarrow> 2 + 4 | Some w \<Rightarrow> if w = 0 then 2 + 4 else w) - 2
   \<and> - (2 ^ 63) \<le> (4::int) \<and> (4::int) < 2 ^ 63
   \<and> draw \<lparr>isatty = False, written = []\<rparr> (lit ''hi'') (Some 6) (lit ''heavy'') None =
       Inr ([9487, 9473, 9473, 9473, 9473, 9491, 10,
             9475, 104, 105, 32, 32, 9475, 10,
             9495, 9473, 9473, 9473, 9473, 9499])"
proof -
  have h: "(2::int) = Max (set (map (\<lambda>l. int (length l)) (py_split 10 (lit ''hi''))))"
    "(4::int) = (case Some 6 of None \<Rightarrow> 2 + 4 | Some w \<Rightarrow> if w = 0 then 2 + 4 else w) - 2"
    "- (2 ^ 63) \<le> (4::int)" "(4::int) < 2 ^ 63"
    by (simp_all add: lit_def)
  have "draw \<lparr>isatty = False, written = []\<rparr> (lit ''hi'') (Some 6) (lit ''heavy'') None =
       Inr ([9487, 9473, 9473, 9473, 9473, 9491, 10,
             9475, 104, 105, 32, 32, 9475, 10,
             9495, 9473, 9473, 9473, 9473, 9499])"
    using draw_shape [OF h, of "lit ''heavy''" "\<lparr>isatty = False, written = []\<rparr>" None,
        THEN conjunct1]
    by (simp add: STYLES_def lit_def replicate_num)
  with h show ?thesis
    by (intro conjI)
qed

text \<open>
  The claim as first stated fails for a width beyond \<open>ssize_t\<close>:
  \<open>Box.draw("x", width=2**63 + 2)\<close> raises \<open>OverflowError\<close> in \<open>h * inner_width\<close>.
\<close>

theorem draw_shape_counterexample:
  "draw \<lparr>isatty = False, written = []\<rparr> (lit ''x'') (Some (2 ^ 63 + 2)) (lit ''single'') None =
     Inl OverflowError"
  by (simp add: draw_def STYLES_def lit_def py_max_def py_repeat_def fits_ssize_t_def
      SSIZE_T_MAX_def Let_def)

subsection \<open>Rounding to binary64\<close>

lemma ilog2_bounds:
  assumes "0 < q"
  shows "2 powi ilog2 q \<le> q \<and> q < 2 powi (ilog2 q + 1)"
proof -
  obtain a b where ab: "quotient_of q = (a, b)"
    by (cases "quotient_of q") auto
  then have b: "0 < b" and q: "q = of_int a / of_int b"
    using quotient_of_denom_pos quotient_of_div by auto
  with assms have a: "0 < a"
    by (simp add: zero_less_divide_iff)
  define la where "la = bitlen a"
  define lb where "lb = bitlen b"
  have la: "2 ^ nat (la - 1) \<le> a" "a < 2 ^ nat la"
    using bitlen_bounds [OF a] by (simp_all add: la_def)
  have lb: "2 ^ nat (lb - 1) \<le> b" "b < 2 ^ nat lb"
    using bitlen_bounds [OF b] by (simp_all add: lb_def)
  have la1: "1 \<le> la" and lb1: "1 \<le> lb"
    using a b by (simp_all add: la_def lb_def bitlen_alt_def)
  have ra: "(2::rat) powi (la - 1) \<le> of_int a" "(of_int a :: rat) < 2 powi la"
  proof -
    have "(of_int (2 ^ nat (la - 1)) :: rat) \<le> of_int a"
      using la(1) by (simp only: of_int_le_iff)
    then show "(2::rat) powi (la - 1) \<le> of_int a"
      using la1 by (simp add: power_int_def)
    have "(of_int a :: rat) < of_int (2 ^ nat la)"
      using la(2) by (simp only: of_int_less_iff)
    then show "(of_int a :: rat) < 2 powi la"
      using la1 by (simp add: power_int_def)
  qed
  have rb: "(2::rat) powi (lb - 1) \<le> of_int b" "(of_int b :: rat) < 2 powi lb"
  proof -
    have "(of_int (2 ^ nat (lb - 1)) :: rat) \<le> of_int b"
      using lb(1) by (simp only: of_int_le_iff)
    then show "(2::rat) powi (lb - 1) \<le> of_int b"
      using lb1 by (simp add: power_int_def)
    have "(of_int b :: rat) < of_int (2 ^ nat lb)"
      using lb(2) by (simp only: of_int_less_iff)
    then show "(of_int b :: rat) < 2 powi lb"
      using lb1 by (simp add: power_int_def)
  qed
  have bpos: "(0::rat) < of_int b"
    using b by simp
  have upper: "q < 2 powi (la - lb + 1)"
  proof -
    have "of_int a < (2::rat) powi (la - lb + 1) * 2 powi (lb - 1)"
      using ra(2) by (simp add: power_int_add [symmetric])
    also have "\<dots> \<le> 2 powi (la - lb + 1) * of_int b"
      using rb(1) by (simp add: mult_left_mono)
    finally show ?thesis
      using bpos by (simp add: q pos_divide_less_eq)
  qed
  have lower: "2 powi (la - lb - 1) < q"
  proof -
    have "(2::rat) powi (la - lb - 1) * of_int b < 2 powi (la - lb - 1) * 2 powi lb"
      using rb(2) by (simp add: mult_strict_left_mono)
    also have "\<dots> = 2 powi (la - 1)"
      by (simp add: power_int_add [symmetric])
    also have "\<dots> \<le> of_int a"
      by (rule ra(1))
    finally show ?thesis
      using bpos by (simp add: q pos_less_divide_eq)
  qed
  show ?thesis
  proof (cases "(2::rat) powi (la - lb) \<le> q")
    case True
    then have "ilog2 q = la - lb"
      by (simp add: ilog2_def ab la_def lb_def)
    with True upper show ?thesis by simp
  next
    case False
    then have "ilog2 q = la - lb - 1"
      by (simp add: ilog2_def ab la_def lb_def)
    with False lower show ?thesis by simp
  qed
qed

lemma ilog2_unique:
  assumes "2 powi e \<le> q" "q < 2 powi (e + 1)"
  shows "ilog2 q = e"
proof -
  have q: "0 < q"
    using assms(1) by (meson less_le_trans zero_less_numeral zero_less_power_int)
  have b: "2 powi ilog2 q \<le> q" "q < 2 powi (ilog2 q + 1)"
    using ilog2_bounds [OF q] by simp_all
  have "(2::rat) powi e < 2 powi (ilog2 q + 1)"
    using assms(1) b(2) by simp
  then have 1: "e < ilog2 q + 1"
    by (metis not_le power_int_increasing one_le_numeral)
  have "(2::rat) powi ilog2 q < 2 powi (e + 1)"
    using assms(2) b(1) by simp
  then have 2: "ilog2 q < e + 1"
    by (metis not_le power_int_increasing one_le_numeral)
  from 1 2 show ?thesis by simp
qed

lemma ilog2_mono:
  assumes "0 < x" "x \<le> y"
  shows "ilog2 x \<le> ilog2 y"
proof -
  have "(2::rat) powi ilog2 x \<le> x"
    using ilog2_bounds [OF assms(1)] by simp
  also have "x \<le> y" by fact
  also have "y < 2 powi (ilog2 y + 1)"
    using ilog2_bounds [of y] assms by simp
  finally have "ilog2 x < ilog2 y + 1"
    by (metis not_le power_int_increasing one_le_numeral)
  then show ?thesis by simp
qed

lemma rne_of_int: "rne (of_int n) = n"
  by (simp add: rne_def)

lemma rne_mono:
  assumes "x \<le> y"
  shows "rne x \<le> rne y"
proof -
  have fx: "\<lfloor>x\<rfloor> \<le> rne x" "rne x \<le> \<lfloor>x\<rfloor> + 1"
    by (simp_all add: rne_def Let_def)
  have fy: "\<lfloor>y\<rfloor> \<le> rne y" "rne y \<le> \<lfloor>y\<rfloor> + 1"
    by (simp_all add: rne_def Let_def)
  have le: "\<lfloor>x\<rfloor> \<le> \<lfloor>y\<rfloor>"
    using assms by (rule floor_mono)
  show ?thesis
  proof (cases "\<lfloor>x\<rfloor> = \<lfloor>y\<rfloor>")
    case False
    with le fx fy show ?thesis by linarith
  next
    case True
    with assms have "x - of_int \<lfloor>x\<rfloor> \<le> y - of_int \<lfloor>y\<rfloor>"
      by simp
    with True show ?thesis
      by (auto simp add: rne_def Let_def)
  qed
qed

lemma pow2_less_iff: "(2::rat) powi a < 2 powi b \<longleftrightarrow> a < b"
  by (metis not_le power_int_increasing power_int_strict_increasing one_le_numeral one_less_numeral_iff semiring_norm(76) less_le_not_le linorder_not_less)

lemma pow2_le_iff: "(2::rat) powi a \<le> 2 powi b \<longleftrightarrow> a \<le> b"
  using pow2_less_iff [of b a] by (simp add: not_less [symmetric])

lemma pow2_split: "(2::rat) powi (a + b) = 2 powi a * 2 powi b"
  by (simp add: power_int_add)

lemma pow2_div: "(2::rat) powi a / 2 powi b = 2 powi (a - b)"
  by (simp add: power_int_diff)

lemma nearest_exact:
  assumes "0 < q" "q / 2 powi last_bit q = of_int m"
  shows "nearest q = q"
proof -
  have "of_int (rne (q / 2 powi last_bit q)) * 2 powi last_bit q = q / 2 powi last_bit q * 2 powi last_bit q"
    by (simp only: assms(2) rne_of_int)
  also have "\<dots> = q"
    by simp
  finally show ?thesis
    using assms(1) by (simp add: nearest_def)
qed

lemma nearest_representable:
  assumes "0 < m" "m \<le> 2 ^ 53" "- 1074 \<le> j"
  shows "nearest (of_int m * 2 powi j) = of_int m * 2 powi j"
proof -
  define q :: rat where "q = of_int m * 2 powi j"
  have qpos: "0 < q"
    using assms(1) by (simp add: q_def)
  have "(of_int m :: rat) \<le> of_int (2 ^ 53)"
    using assms(2) by (simp only: of_int_le_iff)
  then have mle: "(of_int m :: rat) \<le> 2 powi 53"
    by simp
  have "\<exists>n. q / 2 powi last_bit q = of_int n"
  proof (cases "m = 2 ^ 53")
    case True
    then have q2: "q = 2 powi (53 + j)"
      by (simp add: q_def power_int_add)
    have "ilog2 q = 53 + j"
      by (rule ilog2_unique) (simp_all add: q2 pow2_le_iff pow2_less_iff)
    then have "last_bit q = j + 1"
      using assms(3) by (simp add: last_bit_def)
    then have "q / 2 powi last_bit q = 2 powi (53 + j) / 2 powi (j + 1)"
      by (simp only: q2)
    also have "\<dots> = 2 powi (53 + j - (j + 1))"
      by (rule pow2_div)
    also have "53 + j - (j + 1) = 52"
      by simp
    also have "(2::rat) powi 52 = of_int (2 ^ 52)"
      by simp
    finally show ?thesis by blast
  next
    case False
    with assms(2) have "m < 2 ^ 53" by simp
    then have "(of_int m :: rat) < of_int (2 ^ 53)"
      by (simp only: of_int_less_iff)
    then have "(of_int m :: rat) < 2 powi 53"
      by simp
    then have "q < 2 powi 53 * 2 powi j"
      by (simp add: q_def)
    then have "q < 2 powi (53 + j)"
      by (simp add: power_int_add)
    moreover have "2 powi ilog2 q \<le> q"
      using ilog2_bounds [OF qpos] by simp
    ultimately have "(2::rat) powi ilog2 q < 2 powi (53 + j)"
      by simp
    then have "ilog2 q < 53 + j"
      by (simp add: pow2_less_iff)
    then have k: "last_bit q \<le> j"
      using assms(3) by (simp add: last_bit_def)
    have "q / 2 powi last_bit q = of_int m * 2 powi (j - last_bit q)"
      by (simp add: q_def power_int_diff)
    also have "\<dots> = of_int m * 2 ^ nat (j - last_bit q)"
      using k by (simp add: power_int_def)
    also have "\<dots> = of_int (m * 2 ^ nat (j - last_bit q))"
      by simp
    finally show ?thesis by blast
  qed
  then show ?thesis
    using nearest_exact [OF qpos] by (auto simp add: q_def)
qed

lemma nearest_of_int:
  assumes "0 \<le> w" "w \<le> 2 ^ 53"
  shows "nearest (of_int w) = of_int w"
proof (cases "w = 0")
  case True
  then show ?thesis by (simp add: nearest_def)
next
  case False
  with assms have "0 < w" by simp
  then show ?thesis
    using nearest_representable [of w 0] assms(2) by simp
qed

lemma nearest_pow2:
  assumes "- 1074 \<le> j"
  shows "nearest (2 powi j) = 2 powi j"
  using nearest_representable [of 1 j] assms by simp

lemma nearest_nonneg:
  assumes "0 \<le> q"
  shows "0 \<le> nearest q"
proof (cases "q = 0")
  case True
  then show ?thesis by (simp add: nearest_def)
next
  case False
  with assms have "0 \<le> q / 2 powi last_bit q"
    by simp
  then have "rne 0 \<le> rne (q / 2 powi last_bit q)"
    by (rule rne_mono)
  then have "0 \<le> rne (q / 2 powi last_bit q)"
    using rne_of_int [of 0] by simp
  then show ?thesis
    using False by (simp add: nearest_def)
qed

lemma scaled_below:
  assumes "0 < x"
  shows "x / 2 powi last_bit x < 2 powi 53"
proof -
  have "x < 2 powi (ilog2 x + 1)"
    using ilog2_bounds [OF assms] by simp
  also have "\<dots> \<le> 2 powi (53 + last_bit x)"
    by (simp add: pow2_le_iff last_bit_def)
  also have "\<dots> = 2 powi 53 * 2 powi last_bit x"
    by (simp add: power_int_add)
  finally show ?thesis
    by (simp add: pos_divide_less_eq)
qed

lemma nearest_upper:
  assumes "0 < x"
  shows "nearest x \<le> 2 powi (53 + last_bit x)"
proof -
  have "x / 2 powi last_bit x \<le> of_int (2 ^ 53)"
    using scaled_below [OF assms] by simp
  then have "rne (x / 2 powi last_bit x) \<le> rne (of_int (2 ^ 53))"
    by (rule rne_mono)
  then have "rne (x / 2 powi last_bit x) \<le> 2 ^ 53"
    by (simp only: rne_of_int)
  then have "(of_int (rne (x / 2 powi last_bit x)) :: rat) \<le> of_int (2 ^ 53)"
    by (simp only: of_int_le_iff)
  then have "(of_int (rne (x / 2 powi last_bit x)) :: rat) * 2 powi last_bit x \<le> 2 powi 53 * 2 powi last_bit x"
    by (simp add: mult_right_mono)
  then show ?thesis
    using assms by (simp add: nearest_def power_int_add)
qed

lemma nearest_lower:
  assumes "0 < y" "last_bit y = ilog2 y - 52"
  shows "2 powi ilog2 y \<le> nearest y"
proof -
  have "52 + (ilog2 y - 52) = ilog2 y"
    by simp
  then have eq: "2 powi 52 * 2 powi last_bit y = (2::rat) powi ilog2 y"
    using pow2_split [of 52 "ilog2 y - 52"] by (simp only: assms(2))
  also have "\<dots> \<le> y"
    using ilog2_bounds [OF assms(1)] by simp
  finally have "(of_int (2 ^ 52) :: rat) \<le> y / 2 powi last_bit y"
    by (simp add: pos_le_divide_eq)
  then have "rne (of_int (2 ^ 52)) \<le> rne (y / 2 powi last_bit y)"
    by (rule rne_mono)
  then have "2 ^ 52 \<le> rne (y / 2 powi last_bit y)"
    by (simp only: rne_of_int)
  then have "(of_int (2 ^ 52) :: rat) \<le> of_int (rne (y / 2 powi last_bit y))"
    by (simp only: of_int_le_iff)
  then have "2 powi 52 * 2 powi last_bit y \<le> (of_int (rne (y / 2 powi last_bit y)) :: rat) * 2 powi last_bit y"
    by (simp add: mult_right_mono)
  then have "2 powi ilog2 y \<le> (of_int (rne (y / 2 powi last_bit y)) :: rat) * 2 powi last_bit y"
    by (simp only: eq)
  moreover have "nearest y = of_int (rne (y / 2 powi last_bit y)) * 2 powi last_bit y"
    using assms(1) by (simp add: nearest_def)
  ultimately show ?thesis
    by (simp only:)
qed

lemma nearest_mono:
  assumes "0 \<le> x" "x \<le> y"
  shows "nearest x \<le> nearest y"
proof (cases "x = 0")
  case True
  then show ?thesis
    using nearest_nonneg [of y] assms by (simp add: nearest_def)
next
  case False
  with assms have x: "0 < x" and y: "0 < y" by simp_all
  have e: "ilog2 x \<le> ilog2 y"
    using x assms(2) by (rule ilog2_mono)
  then have k: "last_bit x \<le> last_bit y"
    by (simp add: last_bit_def)
  show ?thesis
  proof (cases "last_bit x = last_bit y")
    case True
    have "x / 2 powi last_bit y \<le> y / 2 powi last_bit y"
      using assms(2) by (simp add: divide_right_mono)
    then have "rne (x / 2 powi last_bit y) \<le> rne (y / 2 powi last_bit y)"
      by (rule rne_mono)
    then have "(of_int (rne (x / 2 powi last_bit y)) :: rat) * 2 powi last_bit y
        \<le> of_int (rne (y / 2 powi last_bit y)) * 2 powi last_bit y"
      by (simp add: mult_right_mono)
    then show ?thesis
      using x y True by (simp add: nearest_def)
  next
    case False
    with k have lt: "last_bit x < last_bit y" by simp
    then have ky: "last_bit y = ilog2 y - 52"
      by (simp add: last_bit_def max_def split: if_splits)
    have "nearest x \<le> 2 powi (53 + last_bit x)"
      using x by (rule nearest_upper)
    also have "\<dots> \<le> 2 powi ilog2 y"
      using lt ky by (simp add: pow2_le_iff)
    also have "\<dots> \<le> nearest y"
      using y ky by (rule nearest_lower)
    finally show ?thesis .
  qed
qed

subsection \<open>ProgressBar\<close>

lemma round_mag_100: "round_mag 100 = Some 100"
proof -
  have "nearest (of_int 100) = of_int 100"
    by (rule nearest_of_int) simp_all
  then show ?thesis
    by (simp add: round_mag_def)
qed

lemma round_mag_0: "round_mag 0 = Some 0"
  by (simp add: round_mag_def nearest_def)

lemma concat_replicate_single: "concat (replicate k [g]) = replicate k g"
  by (induction k) simp_all

lemma py_repeat_FILLED:
  assumes "fits_ssize_t n"
  shows "py_repeat FILLED n = Inr (replicate (nat n) 9608)"
  using py_repeat_single [OF assms, of FILLED] by (simp add: FILLED_def concat_replicate_single)

lemma py_repeat_UNFILLED:
  assumes "fits_ssize_t n"
  shows "py_repeat UNFILLED n = Inr (replicate (nat n) 9617)"
  using py_repeat_single [OF assms, of UNFILLED] by (simp add: UNFILLED_def concat_replicate_single)

lemma update_float:
  assumes "0 < pb_total pb"
    and "round_mag (\<bar>of_int c\<bar> / \<bar>of_int (pb_total pb)\<bar>) = Some p"
    and "round_mag \<bar>of_int (pb_width pb)\<bar> = Some wm"
    and "round_mag (wm * p) = Some fm"
    and "filled = (if (pb_width pb < 0) \<noteq> (c < 0) then - \<lfloor>fm\<rfloor> else \<lfloor>fm\<rfloor>)"
    and "fits_ssize_t filled" and "fits_ssize_t (pb_width pb - filled)"
  shows "update pb (Some c) msg =
     Inr (pb\<lparr>pb_current := c,
             pb_term := writeln (if pb_started pb then clear_line (move_up (pb_term pb) 1)
                                 else pb_term pb)
               (lit ''[''
                @ replicate (nat filled) 9608
                @ replicate (nat (pb_width pb - filled)) 9617
                @ lit ''] ''
                @ rjust (float_fixed1 (float_mul (Finite (c < 0) p) (Finite False 100))) 5
                @ lit ''%''
                @ (if msg = [] then [] else lit '' '' @ msg)),
             pb_started := True\<rparr>)"
proof -
  have n: "num_to_int (PyFloat (float_mul (Finite (pb_width pb < 0) wm) (Finite (c < 0) p))) = Inr filled"
    using assms(4,5) by simp
  show ?thesis
    using assms(1,2,3) n py_repeat_FILLED [OF assms(6)] py_repeat_UNFILLED [OF assms(7)]
    by (simp add: update_def int_truediv_def int_to_float_def round_mag_100 Let_def)
qed

lemma update_repeat_overflow:
  assumes "0 < pb_total pb"
    and "round_mag (\<bar>of_int c\<bar> / \<bar>of_int (pb_total pb)\<bar>) = Some p"
    and "round_mag \<bar>of_int (pb_width pb)\<bar> = Some wm"
    and "round_mag (wm * p) = Some fm"
    and "filled = (if (pb_width pb < 0) \<noteq> (c < 0) then - \<lfloor>fm\<rfloor> else \<lfloor>fm\<rfloor>)"
    and "\<not> fits_ssize_t filled"
  shows "update pb (Some c) msg =
     Inl (OverflowError,
          pb\<lparr>pb_current := c,
             pb_term := (if pb_started pb then clear_line (move_up (pb_term pb) 1)
                         else pb_term pb),
             pb_started := True\<rparr>)"
proof -
  have n: "num_to_int (PyFloat (float_mul (Finite (pb_width pb < 0) wm) (Finite (c < 0) p))) = Inr filled"
    using assms(4,5) by simp
  show ?thesis
    using assms(1,2,3) n py_repeat_too_long [OF assms(6), of FILLED]
    by (simp add: update_def int_truediv_def int_to_float_def Let_def)
qed

lemma update_zero_total:
  assumes "pb_total pb \<le> 0" and "fits_ssize_t (pb_width pb)"
  shows "update pb (Some c) msg =
     Inr (pb\<lparr>pb_current := c,
             pb_term := writeln (if pb_started pb then clear_line (move_up (pb_term pb) 1)
                                 else pb_term pb)
               (lit ''['' @ replicate (nat (pb_width pb)) 9617 @ lit '']   0.0%''
                @ (if msg = [] then [] else lit '' '' @ msg)),
             pb_started := True\<rparr>)"
proof -
  have z: "py_repeat FILLED 0 = Inr []"
    by (simp add: py_repeat_def fits_ssize_t_def SSIZE_T_MAX_def)
  show ?thesis
    using assms(1) z py_repeat_UNFILLED [OF assms(2)]
    by (simp add: update_def int_to_float_def round_mag_0 Let_def rjust_def rne_def
        digits.simps lit_def replicate_num)
qed

lemma update_zero_total_overflow:
  assumes "pb_total pb \<le> 0" and "\<not> fits_ssize_t (pb_width pb)"
  shows "update pb (Some c) msg =
     Inl (OverflowError,
          pb\<lparr>pb_current := c,
             pb_term := (if pb_started pb then clear_line (move_up (pb_term pb) 1)
                         else pb_term pb),
             pb_started := True\<rparr>)"
proof -
  have z: "py_repeat FILLED 0 = Inr []"
    by (simp add: py_repeat_def fits_ssize_t_def SSIZE_T_MAX_def)
  show ?thesis
    using assms(1) z py_repeat_too_long [OF assms(2), of UNFILLED]
    by (simp add: update_def Let_def)
qed

lemma nearest_1: "nearest 1 = 1"
  using nearest_of_int [of 1] by simp

lemma nearest_100: "nearest 100 = 100"
  using nearest_of_int [of 100] by simp

lemma round_mag_bounded:
  assumes "nearest x \<le> 2 powi 1023"
  shows "round_mag x = Some (nearest x)"
proof -
  have "(2::rat) powi 1023 < 2 powi 1024"
    by (simp only: pow2_less_iff)
  with assms have "nearest x < 2 powi 1024"
    by (rule le_less_trans)
  then show ?thesis
    by (simp only: round_mag_def if_True)
qed

lemma nearest_le_pow2:
  assumes "0 \<le> x" "x \<le> 2 powi j" "- 1074 \<le> j"
  shows "nearest x \<le> 2 powi j"
  using nearest_mono [OF assms(1,2)] nearest_pow2 [OF assms(3)] by simp

lemma nearest_le_int:
  assumes "0 \<le> x" "x \<le> of_int w" "w \<le> 2 ^ 53"
  shows "nearest x \<le> of_int w"
proof -
  have "0 \<le> w"
    using assms(1,2) by (metis of_int_0_le_iff order_trans)
  then show ?thesis
    using nearest_mono [OF assms(1,2)] nearest_of_int [of w] assms(3) by simp
qed

lemma nearest_ge_int:
  assumes "0 \<le> w" "of_int w \<le> x" "w \<le> 2 ^ 53"
  shows "of_int w \<le> nearest x"
proof -
  have "(0::rat) \<le> of_int w"
    using assms(1) by simp
  then show ?thesis
    using nearest_mono [of "of_int w" x] nearest_of_int [of w] assms by simp
qed

lemma length_digits_small:
  assumes "0 \<le> k" "k \<le> 100"
  shows "1 \<le> length (digits k) \<and> length (digits k) \<le> 3"
proof -
  have one: "length (digits j) = 1" if "j < 10" for j
    using that by (simp add: digits.simps)
  have two: "length (digits j) = 2" if "10 \<le> j" "j < 100" for j
    using that one [of "j div 10"] by (subst digits.simps) simp
  have three: "length (digits j) = 3" if "100 \<le> j" "j < 1000" for j
    using that two [of "j div 10"] by (subst digits.simps) simp
  consider "k < 10" | "10 \<le> k" "k < 100" | "100 \<le> k" "k < 1000"
    using assms by linarith
  then show ?thesis
    using one two three by cases simp_all
qed

lemma rne_error: "\<bar>of_int (rne y) - y\<bar> \<le> 1 / 2"
proof -
  have "of_int \<lfloor>y\<rfloor> \<le> y" "y < of_int \<lfloor>y\<rfloor> + 1"
    by linarith+
  then show ?thesis
    by (auto simp add: rne_def Let_def)
qed

lemma nearest_error:
  assumes "0 < x"
  shows "\<bar>nearest x - x\<bar> \<le> 2 powi (last_bit x - 1)"
proof -
  define k where "k = last_bit x"
  define y where "y = x / 2 powi k"
  have kpos: "(0::rat) < 2 powi k"
    by simp
  have x: "x = y * 2 powi k"
    by (simp add: y_def)
  have n: "nearest x = of_int (rne y) * 2 powi k"
    using assms by (simp add: nearest_def k_def y_def)
  have "nearest x - x = of_int (rne y) * 2 powi k - y * 2 powi k"
    by (simp only: n x [symmetric])
  also have "\<dots> = (of_int (rne y) - y) * 2 powi k"
    by (simp add: algebra_simps)
  finally have "nearest x - x = (of_int (rne y) - y) * 2 powi k" .
  then have "\<bar>nearest x - x\<bar> = \<bar>of_int (rne y) - y\<bar> * 2 powi k"
    using kpos by (simp add: abs_mult)
  also have "\<dots> \<le> 1 / 2 * 2 powi k"
    using rne_error [of y] kpos by (intro mult_right_mono) simp_all
  also have "\<dots> = 2 powi (k - 1)"
    using pow2_split [of "k - 1" 1] by simp
  finally show ?thesis
    by (simp add: k_def)
qed

lemma nearest_error_le:
  assumes "0 \<le> x" "x \<le> 2 powi j" "- 1022 \<le> j"
  shows "\<bar>nearest x - x\<bar> \<le> 2 powi (j - 53)"
proof (cases "x = 0")
  case True
  then show ?thesis by (simp add: nearest_def)
next
  case False
  with assms(1) have x: "0 < x" by simp
  have "(2::rat) powi ilog2 x \<le> 2 powi j"
    using ilog2_bounds [OF x] assms(2) by simp
  then have "ilog2 x \<le> j"
    by (simp only: pow2_le_iff)
  then have "last_bit x - 1 \<le> j - 53"
    using assms(3) by (simp add: last_bit_def)
  then have "(2::rat) powi (last_bit x - 1) \<le> 2 powi (j - 53)"
    by (simp only: pow2_le_iff)
  with nearest_error [OF x] show ?thesis
    by (rule order_trans)
qed

lemma filled_near_floor:
  assumes t: "0 < t" and c0: "0 \<le> c" and ct: "c \<le> t" and w0: "0 \<le> w" and w52: "w \<le> 2 ^ 52"
  shows "\<bar>\<lfloor>nearest (of_int w * nearest (of_int c / of_int t))\<rfloor>
          - \<lfloor>of_int w * of_int c / of_int t :: rat\<rfloor>\<bar> \<le> 1"
proof -
  define q :: rat where "q = of_int c / of_int t"
  define pct where "pct = nearest q"
  define y where "y = of_int w * pct"
  define x where "x = of_int w * q"
  define prod where "prod = nearest y"
  have q0: "0 \<le> q" and q1: "q \<le> 1"
    using t c0 ct by (simp_all add: q_def)
  have "q \<le> 2 powi 0"
    using q1 by simp
  then have "\<bar>nearest q - q\<bar> \<le> 2 powi (0 - 53)"
    using q0 by (intro nearest_error_le) simp_all
  then have e1: "\<bar>pct - q\<bar> \<le> 2 powi (- 53)"
    by (simp add: pct_def)
  have p0: "0 \<le> pct"
    using q0 by (simp add: pct_def nearest_nonneg)
  have p1: "pct \<le> 1"
    using nearest_mono [OF q0 q1] by (simp add: pct_def nearest_1)
  have wr0: "(0::rat) \<le> of_int w"
    using w0 by simp
  have "(of_int w :: rat) \<le> of_int (2 ^ 52)"
    using w52 by (simp only: of_int_le_iff)
  then have wr52: "(of_int w :: rat) \<le> 2 powi 52"
    by simp
  have y0: "0 \<le> y"
    using wr0 p0 by (simp add: y_def)
  have "y \<le> of_int w"
    using wr0 p1 by (simp add: y_def mult_left_le)
  then have y52: "y \<le> 2 powi 52"
    using wr52 by (rule order_trans)
  have "\<bar>nearest y - y\<bar> \<le> 2 powi (52 - 53)"
    using y0 y52 by (intro nearest_error_le) simp_all
  then have e2: "\<bar>prod - y\<bar> \<le> 1 / 2"
    by (simp add: prod_def)
  have "\<bar>y - x\<bar> = of_int w * \<bar>pct - q\<bar>"
    using wr0 by (simp add: y_def x_def right_diff_distrib [symmetric] abs_mult)
  also have "\<dots> \<le> 2 powi 52 * 2 powi (- 53)"
    using wr52 e1 wr0 by (intro mult_mono) simp_all
  also have "\<dots> = 1 / 2"
    by simp
  finally have e3: "\<bar>y - x\<bar> \<le> 1 / 2" .
  have up: "prod \<le> x + 1" and lo: "x - 1 \<le> prod"
    using e2 e3 by linarith+
  have "\<lfloor>prod\<rfloor> \<le> \<lfloor>x + 1\<rfloor>"
    using up by (rule floor_mono)
  moreover have "\<lfloor>x - 1\<rfloor> \<le> \<lfloor>prod\<rfloor>"
    using lo by (rule floor_mono)
  ultimately have "\<bar>\<lfloor>prod\<rfloor> - \<lfloor>x\<rfloor>\<bar> \<le> 1"
    by simp
  then show ?thesis
    by (simp add: prod_def y_def pct_def x_def q_def)
qed

lemma nearest_error_rel:
  assumes "1 \<le> x"
  shows "\<bar>nearest x - x\<bar> \<le> x * 2 powi (- 53)"
proof -
  have x: "0 < x"
    using assms by simp
  have "(2::rat) powi 0 \<le> x"
    using assms by simp
  also have "x < 2 powi (ilog2 x + 1)"
    using ilog2_bounds [OF x] by simp
  finally have "0 < ilog2 x + 1"
    by (simp only: pow2_less_iff)
  then have k: "last_bit x - 1 = ilog2 x + (- 53)"
    by (simp add: last_bit_def)
  have "\<bar>nearest x - x\<bar> \<le> 2 powi (last_bit x - 1)"
    using x by (rule nearest_error)
  also have "\<dots> = 2 powi ilog2 x * 2 powi (- 53)"
    by (simp only: k pow2_split)
  also have "\<dots> \<le> x * 2 powi (- 53)"
    using ilog2_bounds [OF x] by (intro mult_right_mono) simp_all
  finally show ?thesis .
qed

lemma overshoot_near_floor:
  assumes t: "0 < t" and ct: "t < c" and w0: "0 < w" and b: "w * c \<le> t * 2 ^ 51"
  shows "\<bar>\<lfloor>nearest (of_int w * nearest (of_int c / of_int t))\<rfloor>
          - \<lfloor>of_int w * of_int c / of_int t :: rat\<rfloor>\<bar> \<le> 1"
proof -
  define q :: rat where "q = of_int c / of_int t"
  define pct where "pct = nearest q"
  define y where "y = of_int w * pct"
  define x where "x = of_int w * q"
  define prod where "prod = nearest y"
  have tpos: "(0::rat) < of_int t"
    using t by simp
  have wr0: "(0::rat) \<le> of_int w"
    using w0 by simp
  have "(of_int t :: rat) \<le> of_int c"
    using ct by simp
  then have q1: "1 \<le> q"
    using tpos by (simp add: q_def pos_le_divide_eq)
  have "(of_int (w * c) :: rat) \<le> of_int (t * 2 ^ 51)"
    using b by (simp only: of_int_le_iff)
  then have "of_int w * of_int c \<le> 2 powi 51 * (of_int t :: rat)"
    by (simp add: mult.commute)
  then have "of_int w * of_int c / of_int t \<le> (2 powi 51 :: rat)"
    using tpos by (simp only: pos_divide_le_eq)
  then have x51: "x \<le> 2 powi 51"
    by (simp add: x_def q_def)
  have x0: "0 \<le> x"
    using wr0 q1 by (simp add: x_def)
  have e1: "\<bar>pct - q\<bar> \<le> q * 2 powi (- 53)"
    using q1 by (simp only: pct_def nearest_error_rel)
  have "\<bar>y - x\<bar> = of_int w * \<bar>pct - q\<bar>"
    using wr0 by (simp add: y_def x_def right_diff_distrib [symmetric] abs_mult)
  also have "\<dots> \<le> of_int w * (q * 2 powi (- 53))"
    using e1 wr0 by (rule mult_left_mono)
  also have "\<dots> = x * 2 powi (- 53)"
    by (simp add: x_def)
  also have "\<dots> \<le> 2 powi 51 * 2 powi (- 53)"
    using x51 by (intro mult_right_mono) simp_all
  also have "\<dots> = 1 / 4"
    by simp
  finally have e3: "\<bar>y - x\<bar> \<le> 1 / 4" .
  have p0: "0 \<le> pct"
    using q1 by (simp add: pct_def nearest_nonneg)
  have y0: "0 \<le> y"
    using wr0 p0 by (simp add: y_def)
  have "y \<le> x + 1 / 4"
    using e3 by linarith
  also have "\<dots> \<le> 2 powi 51 + 1 / 4"
    using x51 by simp
  also have "\<dots> \<le> 2 powi 52"
    by simp
  finally have y52: "y \<le> 2 powi 52" .
  have "\<bar>nearest y - y\<bar> \<le> 2 powi (52 - 53)"
    using y0 y52 by (intro nearest_error_le) simp_all
  then have e2: "\<bar>prod - y\<bar> \<le> 1 / 2"
    by (simp add: prod_def)
  have up: "prod \<le> x + 1" and lo: "x - 1 \<le> prod"
    using e2 e3 by linarith+
  have "\<lfloor>prod\<rfloor> \<le> \<lfloor>x + 1\<rfloor>"
    using up by (rule floor_mono)
  moreover have "\<lfloor>x - 1\<rfloor> \<le> \<lfloor>prod\<rfloor>"
    using lo by (rule floor_mono)
  ultimately have "\<bar>\<lfloor>prod\<rfloor> - \<lfloor>x\<rfloor>\<bar> \<le> 1"
    by simp
  then show ?thesis
    by (simp add: prod_def y_def pct_def x_def q_def)
qed

lemma update_in_range_aux:
  assumes t: "0 < pb_total pb" and c0: "0 \<le> c" and ct: "c \<le> pb_total pb"
    and w0: "0 \<le> pb_width pb" and w53: "pb_width pb \<le> 2 ^ 53"
  defines "pct \<equiv> nearest (of_int c / of_int (pb_total pb))"
  defines "fm \<equiv> nearest (of_int (pb_width pb) * pct)"
  defines "n \<equiv> rne (nearest (pct * 100) * 10)"
  defines "shown \<equiv> rjust (digits (n div 10) @ lit ''.'' @ digits (n mod 10)) 5"
  defines "bar \<equiv> replicate (nat \<lfloor>fm\<rfloor>) 9608 @ replicate (nat (pb_width pb - \<lfloor>fm\<rfloor>)) 9617"
  shows "update pb (Some c) msg =
      Inr (pb\<lparr>pb_current := c,
              pb_term := writeln (if pb_started pb then clear_line (move_up (pb_term pb) 1)
                                  else pb_term pb)
                (lit ''['' @ bar @ lit ''] '' @ shown @ lit ''%''
                 @ (if msg = [] then [] else lit '' '' @ msg)),
              pb_started := True\<rparr>)"
    and "0 \<le> \<lfloor>fm\<rfloor>" and "\<lfloor>fm\<rfloor> \<le> pb_width pb"
    and "int (length bar) = pb_width pb"
    and "length shown = 5"
proof -
  define q :: rat where "q = of_int c / of_int (pb_total pb)"
  have q0: "0 \<le> q" and q1: "q \<le> 1"
    using t c0 ct by (simp_all add: q_def)
  have p0: "0 \<le> pct"
    using q0 by (simp add: pct_def q_def [symmetric] nearest_nonneg)
  have p1: "pct \<le> 1"
    using nearest_mono [OF q0 q1] by (simp add: pct_def q_def [symmetric] nearest_1)
  have "pct \<le> 2 powi 1023"
    using p1 by (rule order_trans) simp
  then have rq: "round_mag (\<bar>of_int c\<bar> / \<bar>of_int (pb_total pb)\<bar>) = Some pct"
    using t c0 round_mag_bounded [of q] by (simp add: pct_def q_def)
  have wn: "nearest (of_int (pb_width pb)) = of_int (pb_width pb)"
    using w0 w53 by (rule nearest_of_int)
  have w1023: "(of_int (pb_width pb) :: rat) \<le> 2 powi 1023"
  proof -
    have "(of_int (pb_width pb) :: rat) \<le> of_int (2 ^ 53)"
      using w53 by (simp only: of_int_le_iff)
    then show ?thesis
      by (rule order_trans) simp
  qed
  then have rw: "round_mag \<bar>of_int (pb_width pb)\<bar> = Some (of_int (pb_width pb))"
    using w0 round_mag_bounded [of "of_int (pb_width pb)"] by (simp add: wn)
  have wp0: "0 \<le> of_int (pb_width pb) * pct"
    using w0 p0 by simp
  have wp1: "of_int (pb_width pb) * pct \<le> of_int (pb_width pb)"
    using w0 p1 by (simp add: mult_left_le)
  have f0: "0 \<le> fm"
    using wp0 by (simp add: fm_def nearest_nonneg)
  have f1: "fm \<le> of_int (pb_width pb)"
    using wp0 wp1 w53 by (simp add: fm_def nearest_le_int)
  then have "fm \<le> 2 powi 1023"
    using w1023 by (rule order_trans)
  then have rf: "round_mag (of_int (pb_width pb) * pct) = Some fm"
    using round_mag_bounded [of "of_int (pb_width pb) * pct"] by (simp add: fm_def)
  have h0: "0 \<le> pct * 100" and h1: "pct * 100 \<le> 100"
    using p0 p1 by simp_all
  define m where "m = nearest (pct * 100)"
  have m0: "0 \<le> m"
    using h0 by (simp add: m_def nearest_nonneg)
  have m1: "m \<le> 100"
    using nearest_mono [OF h0 h1] by (simp add: m_def nearest_100)
  have "m \<le> 2 powi 1023"
    using m1 by (rule order_trans) simp
  then have rm: "round_mag (pct * 100) = Some m"
    using round_mag_bounded [of "pct * 100"] by (simp add: m_def)
  show fl0: "0 \<le> \<lfloor>fm\<rfloor>"
    using f0 by simp
  show fl1: "\<lfloor>fm\<rfloor> \<le> pb_width pb"
    using f1 by (simp add: floor_le_iff)
  show "int (length bar) = pb_width pb"
    using fl0 fl1 by (simp add: bar_def)
  have "rne (of_int 0) \<le> rne (m * 10)"
    using m0 by (intro rne_mono) simp
  then have n0: "0 \<le> n"
    by (simp only: rne_of_int n_def m_def)
  have "rne (m * 10) \<le> rne (of_int 1000)"
    using m1 by (intro rne_mono) simp
  then have n1: "n \<le> 1000"
    by (simp only: rne_of_int n_def m_def)
  have d1: "length (digits (n mod 10)) = 1"
    by (simp add: digits.simps)
  have "0 \<le> n div 10" "n div 10 \<le> 100"
    using n0 n1 by simp_all
  then have "1 \<le> length (digits (n div 10)) \<and> length (digits (n div 10)) \<le> 3"
    by (rule length_digits_small)
  then show "length shown = 5"
    using d1 by (auto simp add: shown_def rjust_def lit_def)
  have fd: "\<lfloor>fm\<rfloor> = (if (pb_width pb < 0) \<noteq> (c < 0) then - \<lfloor>fm\<rfloor> else \<lfloor>fm\<rfloor>)"
    using c0 w0 by simp
  have w63: "pb_width pb < 2 ^ 63" and z63: "- (2 ^ 63) \<le> (0::int)"
    using w53 by simp_all
  have ff: "fits_ssize_t \<lfloor>fm\<rfloor>"
    unfolding fits_ssize_t_iff using fl0 fl1 w63 z63 by linarith
  have fu: "fits_ssize_t (pb_width pb - \<lfloor>fm\<rfloor>)"
    unfolding fits_ssize_t_iff using fl0 fl1 w63 z63 by linarith
  have "update pb (Some c) msg =
      Inr (pb\<lparr>pb_current := c,
              pb_term := writeln (if pb_started pb then clear_line (move_up (pb_term pb) 1)
                                  else pb_term pb)
               (lit ''[''
                @ replicate (nat \<lfloor>fm\<rfloor>) 9608
                @ replicate (nat (pb_width pb - \<lfloor>fm\<rfloor>)) 9617
                @ lit ''] ''
                @ rjust (float_fixed1 (float_mul (Finite (c < 0) pct) (Finite False 100))) 5
                @ lit ''%''
                @ (if msg = [] then [] else lit '' '' @ msg)),
              pb_started := True\<rparr>)"
    using t rq rw rf fd ff fu by (rule update_float)
  then show "update pb (Some c) msg =
      Inr (pb\<lparr>pb_current := c,
              pb_term := writeln (if pb_started pb then clear_line (move_up (pb_term pb) 1)
                                  else pb_term pb)
                (lit ''['' @ bar @ lit ''] '' @ shown @ lit ''%''
                 @ (if msg = [] then [] else lit '' '' @ msg)),
              pb_started := True\<rparr>)"
    using c0 w0 rm
    by (simp add: bar_def shown_def n_def m_def Let_def)
qed

lemma update_overflow:
  assumes "0 < pb_total pb"
    and "round_mag (\<bar>of_int c\<bar> / \<bar>of_int (pb_total pb)\<bar>) = None"
  shows "update pb (Some c) msg =
     Inl (OverflowError,
          pb\<lparr>pb_current := c,
             pb_term := (if pb_started pb then clear_line (move_up (pb_term pb) 1)
                         else pb_term pb),
             pb_started := True\<rparr>)"
  using assms by (simp add: update_def int_truediv_def Let_def)

lemma round_mag_exact:
  assumes "nearest x = y" "y < 2 powi 1024"
  shows "round_mag x = Some y"
  using assms by (simp only: round_mag_def if_True)

lemma nearest_half: "nearest (1 / 2) = 1 / 2"
  using nearest_pow2 [of "- 1"] by simp

lemma nearest_20: "nearest 20 = 20"
  using nearest_of_int [of 20] by simp

lemma nearest_40: "nearest 40 = 40"
  using nearest_of_int [of 40] by simp

lemma nearest_50: "nearest 50 = 50"
  using nearest_of_int [of 50] by simp

lemma nearest_2: "nearest 2 = 2"
  using nearest_of_int [of 2] by simp

lemma nearest_80: "nearest 80 = 80"
  using nearest_of_int [of 80] by simp

lemma nearest_200: "nearest 200 = 200"
  using nearest_of_int [of 200] by simp

lemma nearest_29_50: "nearest (29 / 50) = 5224175567749775 / 9007199254740992"
  by code_simp

lemma nearest_58_prod:
  "nearest (100 * (5224175567749775 / 9007199254740992)) = 8162774324609023 / 140737488355328"
  by code_simp

lemma rne_58: "rne (8162774324609023 / 140737488355328 * 10) = 580"
  by code_simp

lemma floor_58: "\<lfloor>8162774324609023 / 140737488355328 :: rat\<rfloor> = 57"
  by code_simp

lemma nearest_10001: "nearest (10001 / 10000) = 4504049987333233 / 4503599627370496"
  by code_simp

lemma nearest_10001_w:
  "nearest (40 * (4504049987333233 / 4503599627370496)) = 5630062484166541 / 140737488355328"
  by code_simp

lemma nearest_10001_100:
  "nearest (4504049987333233 / 4503599627370496 * 100) = 7037578105208177 / 70368744177664"
  by code_simp

lemma rne_10001: "rne (7037578105208177 / 70368744177664 * 10) = 1000"
  by code_simp

lemma floor_10001: "\<lfloor>5630062484166541 / 140737488355328 :: rat\<rfloor> = 40"
  by code_simp

lemma round_mag_half: "round_mag (1 / 2) = Some (1 / 2)"
  by (rule round_mag_exact [OF nearest_half]) simp

lemma round_mag_20: "round_mag 20 = Some 20"
  by (rule round_mag_exact [OF nearest_20]) simp

lemma round_mag_40: "round_mag 40 = Some 40"
  by (rule round_mag_exact [OF nearest_40]) simp

lemma round_mag_50: "round_mag 50 = Some 50"
  by (rule round_mag_exact [OF nearest_50]) simp

lemma rne_500: "rne 500 = 500"
  using rne_of_int [of 500] by simp

lemma update_5_of_10:
  "update (ProgressBar_init so 10 40 trm) (Some 5) [] =
     Inr ((ProgressBar_init so 10 40 trm)
            \<lparr>pb_current := 5,
             pb_term := writeln (pb_term (ProgressBar_init so 10 40 trm))
                (lit ''['' @ replicate 20 9608 @ replicate 20 9617 @ lit '']  50.0%''),
             pb_started := True\<rparr>)"
proof -
  define pb where "pb = ProgressBar_init so 10 40 trm"
  have pb: "pb_total pb = 10" "pb_width pb = 40" "\<not> pb_started pb"
    by (simp_all add: pb_def ProgressBar_init_def)
  have t: "0 < pb_total pb"
    by (simp add: pb)
  have "\<bar>of_int 5\<bar> / \<bar>of_int (pb_total pb)\<bar> = (1 / 2 :: rat)"
    by (simp add: pb)
  then have rq: "round_mag (\<bar>of_int 5\<bar> / \<bar>of_int (pb_total pb)\<bar>) = Some (1 / 2)"
    by (simp only: round_mag_half)
  have "\<bar>of_int (pb_width pb)\<bar> = (40 :: rat)"
    by (simp add: pb)
  then have rw: "round_mag \<bar>of_int (pb_width pb)\<bar> = Some 40"
    by (simp only: round_mag_40)
  have "40 * (1 / 2) = (20 :: rat)"
    by simp
  then have rf: "round_mag (40 * (1 / 2)) = Some 20"
    by (simp only: round_mag_20)
  have fd: "(20::int) = (if (pb_width pb < 0) \<noteq> ((5::int) < 0) then - \<lfloor>20::rat\<rfloor> else \<lfloor>20::rat\<rfloor>)"
    by (simp add: pb)
  have ff: "fits_ssize_t 20" and fu: "fits_ssize_t (pb_width pb - 20)"
    by (simp_all add: pb fits_ssize_t_iff)
  have "update pb (Some 5) [] =
     Inr (pb\<lparr>pb_current := 5,
             pb_term := writeln (if pb_started pb then clear_line (move_up (pb_term pb) 1)
                                 else pb_term pb)
               (lit ''[''
                @ replicate (nat 20) 9608
                @ replicate (nat (pb_width pb - 20)) 9617
                @ lit ''] ''
                @ rjust (float_fixed1 (float_mul (Finite ((5::int) < 0) (1 / 2)) (Finite False 100))) 5
                @ lit ''%''
                @ (if ([]::ustr) = [] then [] else lit '' '' @ [])),
             pb_started := True\<rparr>)"
    using t rq rw rf fd ff fu by (rule update_float)
  then show ?thesis
    unfolding pb_def [symmetric]
    by (simp add: pb round_mag_50 rne_500 digits.simps rjust_def lit_def replicate_num)
qed

text \<open>
  Claim C3, amended. For \<open>total > 0\<close>, \<open>0 \<le> current \<le> total\<close> and
  \<open>0 \<le> width \<le> 2^53\<close>, \<open>update(current, message)\<close> raises nothing and writes the line
  \<open>[bar] shown%\<close>, followed by a space and the message when the message is not empty.
  The bar is \<open>filled\<close> filled glyphs and then \<open>width - filled\<close> unfilled ones, \<open>width\<close>
  characters in all, where \<open>filled = int(width * pct)\<close> and \<open>pct\<close> is the float
  \<open>current / total\<close>; \<open>filled\<close> is \<open>floor(width * current / total)\<close> whenever the
  quotient and the product are binary64 values, and differs from it by at most one
  when \<open>width \<le> 2^52\<close>. The percentage is \<open>pct * 100\<close> rounded
  to one decimal, five characters wide. With \<open>total = 10\<close> and \<open>width = 40\<close>,
  \<open>update(5)\<close> writes 20 filled and 20 unfilled glyphs and \<open> 50.0%\<close>.
\<close>

theorem update_in_range:
  assumes "0 < pb_total pb" and "0 \<le> c" and "c \<le> pb_total pb"
    and "0 \<le> pb_width pb" and "pb_width pb \<le> 2 ^ 53"
  shows "(let pct = nearest (of_int c / of_int (pb_total pb));
              filled = \<lfloor>nearest (of_int (pb_width pb) * pct)\<rfloor>;
              n = rne (nearest (pct * 100) * 10);
              shown = rjust (digits (n div 10) @ lit ''.'' @ digits (n mod 10)) 5;
              bar = replicate (nat filled) 9608 @ replicate (nat (pb_width pb - filled)) 9617
          in update pb (Some c) msg =
               Inr (pb\<lparr>pb_current := c,
                       pb_term := writeln (if pb_started pb then clear_line (move_up (pb_term pb) 1)
                                           else pb_term pb)
                         (lit ''['' @ bar @ lit ''] '' @ shown @ lit ''%''
                          @ (if msg = [] then [] else lit '' '' @ msg)),
                       pb_started := True\<rparr>)
             \<and> 0 \<le> filled \<and> filled \<le> pb_width pb
             \<and> int (length bar) = pb_width pb
             \<and> length shown = 5
             \<and> (pct = of_int c / of_int (pb_total pb)
                  \<and> nearest (of_int (pb_width pb) * pct) = of_int (pb_width pb) * pct
                 \<longrightarrow> filled = \<lfloor>of_int (pb_width pb) * of_int c / of_int (pb_total pb) :: rat\<rfloor>)
             \<and> (pb_width pb \<le> 2 ^ 52
                 \<longrightarrow> \<bar>filled - \<lfloor>of_int (pb_width pb) * of_int c / of_int (pb_total pb) :: rat\<rfloor>\<bar> \<le> 1))
     \<and> update (ProgressBar_init so 10 40 trm) (Some 5) [] =
         Inr ((ProgressBar_init so 10 40 trm)
                \<lparr>pb_current := 5,
                 pb_term := writeln (pb_term (ProgressBar_init so 10 40 trm))
                    (lit ''['' @ replicate 20 9608 @ replicate 20 9617 @ lit '']  50.0%''),
                 pb_started := True\<rparr>)"
  unfolding Let_def
proof (intro conjI impI)
  show "update pb (Some c) msg =
      Inr (pb\<lparr>pb_current := c,
              pb_term := writeln (if pb_started pb then clear_line (move_up (pb_term pb) 1)
                                  else pb_term pb)
                (lit ''[''
                 @ (replicate (nat \<lfloor>nearest (of_int (pb_width pb)
                       * nearest (of_int c / of_int (pb_total pb)))\<rfloor>) 9608
                    @ replicate (nat (pb_width pb - \<lfloor>nearest (of_int (pb_width pb)
                       * nearest (of_int c / of_int (pb_total pb)))\<rfloor>)) 9617)
                 @ lit ''] ''
                 @ rjust (digits (rne (nearest (nearest (of_int c / of_int (pb_total pb)) * 100) * 10) div 10)
                          @ lit ''.''
                          @ digits (rne (nearest (nearest (of_int c / of_int (pb_total pb)) * 100) * 10) mod 10)) 5
                 @ lit ''%''
                 @ (if msg = [] then [] else lit '' '' @ msg)),
              pb_started := True\<rparr>)"
    by (rule update_in_range_aux(1) [OF assms])
  show "0 \<le> \<lfloor>nearest (of_int (pb_width pb) * nearest (of_int c / of_int (pb_total pb)))\<rfloor>"
    by (rule update_in_range_aux(2) [OF assms])
  show "\<lfloor>nearest (of_int (pb_width pb) * nearest (of_int c / of_int (pb_total pb)))\<rfloor> \<le> pb_width pb"
    by (rule update_in_range_aux(3) [OF assms])
  show "int (length (replicate (nat \<lfloor>nearest (of_int (pb_width pb)
                       * nearest (of_int c / of_int (pb_total pb)))\<rfloor>) (9608::nat)
                    @ replicate (nat (pb_width pb - \<lfloor>nearest (of_int (pb_width pb)
                       * nearest (of_int c / of_int (pb_total pb)))\<rfloor>)) 9617)) = pb_width pb"
    by (rule update_in_range_aux(4) [OF assms])
  show "length (rjust (digits (rne (nearest (nearest (of_int c / of_int (pb_total pb)) * 100) * 10) div 10)
                          @ lit ''.''
                          @ digits (rne (nearest (nearest (of_int c / of_int (pb_total pb)) * 100) * 10) mod 10)) 5) = 5"
    by (rule update_in_range_aux(5) [OF assms])
  show "\<lfloor>nearest (of_int (pb_width pb) * nearest (of_int c / of_int (pb_total pb)))\<rfloor>
      = \<lfloor>of_int (pb_width pb) * of_int c / of_int (pb_total pb) :: rat\<rfloor>"
    if "nearest (of_int c / of_int (pb_total pb)) = of_int c / of_int (pb_total pb)
        \<and> nearest (of_int (pb_width pb) * nearest (of_int c / of_int (pb_total pb)))
            = of_int (pb_width pb) * nearest (of_int c / of_int (pb_total pb))"
  proof -
    have "\<lfloor>nearest (of_int (pb_width pb) * nearest (of_int c / of_int (pb_total pb)))\<rfloor>
        = \<lfloor>of_int (pb_width pb) * nearest (of_int c / of_int (pb_total pb))\<rfloor>"
      by (simp only: that [THEN conjunct2])
    also have "\<dots> = \<lfloor>of_int (pb_width pb) * (of_int c / of_int (pb_total pb) :: rat)\<rfloor>"
      by (simp only: that [THEN conjunct1])
    also have "of_int (pb_width pb) * (of_int c / of_int (pb_total pb) :: rat)
        = of_int (pb_width pb) * of_int c / of_int (pb_total pb)"
      by simp
    finally show ?thesis .
  qed
  show "\<bar>\<lfloor>nearest (of_int (pb_width pb) * nearest (of_int c / of_int (pb_total pb)))\<rfloor>
          - \<lfloor>of_int (pb_width pb) * of_int c / of_int (pb_total pb) :: rat\<rfloor>\<bar> \<le> 1"
    if "pb_width pb \<le> 2 ^ 52"
    using assms(1,2,3,4) that by (rule filled_near_floor)
  show "update (ProgressBar_init so 10 40 trm) (Some 5) [] =
         Inr ((ProgressBar_init so 10 40 trm)
                \<lparr>pb_current := 5,
                 pb_term := writeln (pb_term (ProgressBar_init so 10 40 trm))
                    (lit ''['' @ replicate 20 9608 @ replicate 20 9617 @ lit '']  50.0%''),
                 pb_started := True\<rparr>)"
    by (rule update_5_of_10)
qed

lemma nearest_quarter: "nearest (1 / 4) = 1 / 4"
  using nearest_pow2 [of "- 2"] by simp

lemma nearest_25: "nearest 25 = 25"
  using nearest_of_int [of 25] by simp

theorem update_in_range_witness:
  "0 < pb_total \<lparr>pb_total = 4, pb_width = 8,
        pb_term = Terminal_init \<lparr>isatty = True, written = []\<rparr> None,
        pb_current = 0, pb_started = True\<rparr>
   \<and> (0::int) \<le> 1
   \<and> 1 \<le> pb_total \<lparr>pb_total = 4, pb_width = 8,
        pb_term = Terminal_init \<lparr>isatty = True, written = []\<rparr> None,
        pb_current = 0, pb_started = True\<rparr>
   \<and> 0 \<le> pb_width \<lparr>pb_total = 4, pb_width = 8,
        pb_term = Terminal_init \<lparr>isatty = True, written = []\<rparr> None,
        pb_current = 0, pb_started = True\<rparr>
   \<and> pb_width \<lparr>pb_total = 4, pb_width = 8,
        pb_term = Terminal_init \<lparr>isatty = True, written = []\<rparr> None,
        pb_current = 0, pb_started = True\<rparr> \<le> 2 ^ 53
   \<and> update \<lparr>pb_total = 4, pb_width = 8,
        pb_term = Terminal_init \<lparr>isatty = True, written = []\<rparr> None,
        pb_current = 0, pb_started = True\<rparr> (Some 1) (lit ''go'') =
       Inr \<lparr>pb_total = 4, pb_width = 8,
            pb_term = \<lparr>t_stream = \<lparr>isatty = True,
               written = [[27] @ lit ''[1A'', [27] @ lit ''[2K'',
                          lit ''['' @ replicate 2 9608 @ replicate 6 9617 @ lit '']  25.0% go'' @ [10]]\<rparr>,
               is_tty = True\<rparr>,
            pb_current = 1, pb_started = True\<rparr>
   \<and> nearest (1 / 4) = 1 / 4
   \<and> nearest 2 = 2
   \<and> (8::int) \<le> 2 ^ 52"
proof -
  define pb where "pb = \<lparr>pb_total = 4, pb_width = 8,
        pb_term = Terminal_init \<lparr>isatty = True, written = []\<rparr> None,
        pb_current = 0, pb_started = True\<rparr>"
  have pb: "pb_total pb = 4" "pb_width pb = 8" "pb_started pb" "pb_current pb = 0"
    "pb_term pb = Terminal_init \<lparr>isatty = True, written = []\<rparr> None"
    by (simp_all add: pb_def)
  have h: "0 < pb_total pb" "(0::int) \<le> 1" "1 \<le> pb_total pb" "0 \<le> pb_width pb"
    "pb_width pb \<le> 2 ^ 53"
    by (simp_all add: pb)
  have pct: "nearest (of_int 1 / of_int (pb_total pb)) = 1 / 4"
    by (simp add: pb nearest_quarter)
  have "of_int (pb_width pb) * (1 / 4) = (2::rat)"
    by (simp add: pb)
  then have fm: "nearest (of_int (pb_width pb) * (1 / 4)) = 2"
    by (simp only: nearest_2)
  have "1 / 4 * 100 = (25::rat)"
    by simp
  then have m: "nearest (1 / 4 * 100) = 25"
    by (simp only: nearest_25)
  have n: "rne (25 * 10) = 250"
    using rne_of_int [of 250] by simp
  have "update pb (Some 1) (lit ''go'') =
     Inr (pb\<lparr>pb_current := 1,
             pb_term := writeln (if pb_started pb then clear_line (move_up (pb_term pb) 1)
                                 else pb_term pb)
               (lit ''['' @ (replicate (nat \<lfloor>2::rat\<rfloor>) 9608 @ replicate (nat (pb_width pb - \<lfloor>2::rat\<rfloor>)) 9617)
                @ lit ''] '' @ rjust (digits (250 div 10) @ lit ''.'' @ digits (250 mod 10)) 5
                @ lit ''%'' @ (if lit ''go'' = [] then [] else lit '' '' @ lit ''go'')),
             pb_started := True\<rparr>)"
    using update_in_range [OF h, of "lit ''go''", THEN conjunct1]
    unfolding Let_def pct fm m n by (rule conjunct1)
  then have "update pb (Some 1) (lit ''go'') =
       Inr \<lparr>pb_total = 4, pb_width = 8,
            pb_term = \<lparr>t_stream = \<lparr>isatty = True,
               written = [[27] @ lit ''[1A'', [27] @ lit ''[2K'',
                          lit ''['' @ replicate 2 9608 @ replicate 6 9617 @ lit '']  25.0% go'' @ [10]]\<rparr>,
               is_tty = True\<rparr>,
            pb_current = 1, pb_started = True\<rparr>"
    by (simp add: pb_def Terminal_init_def writeln_def write_out_def clear_line_def move_up_def
        escape_def CSI_def ESC_def py_str_def digits.simps rjust_def lit_def replicate_num)
  moreover have "(8::int) \<le> 2 ^ 52"
    by simp
  ultimately show ?thesis
    using h nearest_quarter nearest_2 unfolding pb_def by (intro conjI)
qed

lemma update_init_value:
  assumes "0 < tot"
    and "\<bar>of_int c\<bar> / \<bar>of_int tot\<bar> = (q::rat)" and "nearest q = p" and "p < 2 powi 1024"
    and "nearest \<bar>of_int wid\<bar> = wm" and "wm < 2 powi 1024"
    and "nearest (wm * p) = fm" and "fm < 2 powi 1024"
    and "nearest (p * 100) = m" and "m < 2 powi 1024"
    and "rne (m * 10) = n"
    and "(if (wid < 0) \<noteq> (c < 0) then - \<lfloor>fm\<rfloor> else \<lfloor>fm\<rfloor>) = filled"
    and "fits_ssize_t filled" and "fits_ssize_t (wid - filled)"
  shows "update (ProgressBar_init so tot wid trm) (Some c) msg =
     Inr ((ProgressBar_init so tot wid trm)
            \<lparr>pb_current := c,
             pb_term := writeln (pb_term (ProgressBar_init so tot wid trm))
               (lit ''['' @ replicate (nat filled) 9608 @ replicate (nat (wid - filled)) 9617
                @ lit ''] ''
                @ rjust ((if c < 0 then lit ''-'' else [])
                         @ digits (n div 10) @ lit ''.'' @ digits (n mod 10)) 5
                @ lit ''%''
                @ (if msg = [] then [] else lit '' '' @ msg)),
             pb_started := True\<rparr>)"
proof -
  define pb where "pb = ProgressBar_init so tot wid trm"
  have pb: "pb_total pb = tot" "pb_width pb = wid" "\<not> pb_started pb"
    by (simp_all add: pb_def ProgressBar_init_def)
  have t: "0 < pb_total pb"
    using assms(1) by (simp add: pb)
  have "round_mag q = Some p"
    using assms(3,4) by (rule round_mag_exact)
  then have rq: "round_mag (\<bar>of_int c\<bar> / \<bar>of_int (pb_total pb)\<bar>) = Some p"
    by (simp only: pb assms(2))
  have "round_mag \<bar>of_int wid\<bar> = Some wm"
    using assms(5,6) by (rule round_mag_exact)
  then have rw: "round_mag \<bar>of_int (pb_width pb)\<bar> = Some wm"
    by (simp only: pb)
  have rf: "round_mag (wm * p) = Some fm"
    using assms(7,8) by (rule round_mag_exact)
  have rm: "round_mag (p * 100) = Some m"
    using assms(9,10) by (rule round_mag_exact)
  have fd: "filled = (if (pb_width pb < 0) \<noteq> (c < 0) then - \<lfloor>fm\<rfloor> else \<lfloor>fm\<rfloor>)"
    by (simp only: pb assms(12))
  have fu: "fits_ssize_t (pb_width pb - filled)"
    using assms(14) by (simp only: pb)
  have "update pb (Some c) msg =
     Inr (pb\<lparr>pb_current := c,
             pb_term := writeln (if pb_started pb then clear_line (move_up (pb_term pb) 1)
                                 else pb_term pb)
               (lit ''[''
                @ replicate (nat filled) 9608
                @ replicate (nat (pb_width pb - filled)) 9617
                @ lit ''] ''
                @ rjust (float_fixed1 (float_mul (Finite (c < 0) p) (Finite False 100))) 5
                @ lit ''%''
                @ (if msg = [] then [] else lit '' '' @ msg)),
             pb_started := True\<rparr>)"
    using t rq rw rf fd assms(13) fu by (rule update_float)
  then show ?thesis
    unfolding pb_def [symmetric]
    by (simp add: pb rm assms(11) Let_def)
qed

lemma update_20_of_10:
  "update (ProgressBar_init so 10 40 trm) (Some 20) [] =
     Inr ((ProgressBar_init so 10 40 trm)
            \<lparr>pb_current := 20,
             pb_term := writeln (pb_term (ProgressBar_init so 10 40 trm))
                (lit ''['' @ replicate 80 9608 @ lit ''] 200.0%''),
             pb_started := True\<rparr>)"
proof -
  have "update (ProgressBar_init so 10 40 trm) (Some 20) [] =
     Inr ((ProgressBar_init so 10 40 trm)
            \<lparr>pb_current := 20,
             pb_term := writeln (pb_term (ProgressBar_init so 10 40 trm))
               (lit ''['' @ replicate (nat 80) 9608 @ replicate (nat (40 - 80)) 9617
                @ lit ''] ''
                @ rjust ((if (20::int) < 0 then lit ''-'' else [])
                         @ digits (2000 div 10) @ lit ''.'' @ digits (2000 mod 10)) 5
                @ lit ''%''
                @ (if ([]::ustr) = [] then [] else lit '' '' @ [])),
             pb_started := True\<rparr>)"
  proof (rule update_init_value)
    show "\<bar>of_int 20\<bar> / \<bar>of_int 10\<bar> = (2::rat)" by simp
    show "nearest 2 = 2" by (rule nearest_2)
    show "nearest \<bar>of_int 40\<bar> = 40" by (simp add: nearest_40)
    show "nearest (40 * 2) = 80" by (simp add: nearest_80)
    show "nearest (2 * 100) = 200" by (simp add: nearest_200)
    show "rne (200 * 10) = 2000" using rne_of_int [of 2000] by simp
    show "(if ((40::int) < 0) \<noteq> ((20::int) < 0) then - \<lfloor>80::rat\<rfloor> else \<lfloor>80::rat\<rfloor>) = 80" by simp
  qed (simp_all add: fits_ssize_t_iff)
  then show ?thesis
    by (simp add: digits.simps rjust_def lit_def)
qed

lemma update_58_of_100:
  "update (ProgressBar_init so 100 100 trm) (Some 58) [] =
     Inr ((ProgressBar_init so 100 100 trm)
            \<lparr>pb_current := 58,
             pb_term := writeln (pb_term (ProgressBar_init so 100 100 trm))
                (lit ''['' @ replicate 57 9608 @ replicate 43 9617 @ lit '']  58.0%''),
             pb_started := True\<rparr>)"
proof -
  have "update (ProgressBar_init so 100 100 trm) (Some 58) [] =
     Inr ((ProgressBar_init so 100 100 trm)
            \<lparr>pb_current := 58,
             pb_term := writeln (pb_term (ProgressBar_init so 100 100 trm))
               (lit ''['' @ replicate (nat 57) 9608 @ replicate (nat (100 - 57)) 9617
                @ lit ''] ''
                @ rjust ((if (58::int) < 0 then lit ''-'' else [])
                         @ digits (580 div 10) @ lit ''.'' @ digits (580 mod 10)) 5
                @ lit ''%''
                @ (if ([]::ustr) = [] then [] else lit '' '' @ [])),
             pb_started := True\<rparr>)"
  proof (rule update_init_value)
    show "\<bar>of_int 58\<bar> / \<bar>of_int 100\<bar> = (29 / 50 :: rat)" by simp
    show "nearest (29 / 50) = 5224175567749775 / 9007199254740992" by (rule nearest_29_50)
    show "nearest \<bar>of_int 100\<bar> = 100" by (simp add: nearest_100)
    show "nearest (100 * (5224175567749775 / 9007199254740992)) = 8162774324609023 / 140737488355328"
      by (rule nearest_58_prod)
    show "nearest (5224175567749775 / 9007199254740992 * 100) = 8162774324609023 / 140737488355328"
      using nearest_58_prod by (simp only: mult.commute)
    show "rne (8162774324609023 / 140737488355328 * 10) = 580" by (rule rne_58)
    show "(if ((100::int) < 0) \<noteq> ((58::int) < 0) then - \<lfloor>8162774324609023 / 140737488355328 :: rat\<rfloor>
           else \<lfloor>8162774324609023 / 140737488355328 :: rat\<rfloor>) = 57"
      by (simp add: floor_58)
  qed (simp_all add: fits_ssize_t_iff)
  then show ?thesis
    by (simp add: digits.simps rjust_def lit_def)
qed

text \<open>
  The claim as first stated fails outside that range and where the quotient is not a
  binary64 value: with \<open>total = 10\<close> and \<open>width = 40\<close>, \<open>update(20)\<close> writes a bar of 80
  glyphs; with \<open>total = 100\<close> and \<open>width = 100\<close>, \<open>update(58)\<close> writes 57 filled glyphs,
  while \<open>floor(100 * 58 / 100) = 58\<close>.
\<close>

theorem update_bar_counterexample:
  "update (ProgressBar_init \<lparr>isatty = False, written = []\<rparr> 10 40 None) (Some 20) [] =
     Inr \<lparr>pb_total = 10, pb_width = 40,
          pb_term = \<lparr>t_stream = \<lparr>isatty = False,
             written = [lit ''['' @ replicate 80 9608 @ lit ''] 200.0%'' @ [10]]\<rparr>,
             is_tty = False\<rparr>,
          pb_current = 20, pb_started = True\<rparr>
   \<and> length (replicate 80 (9608::nat)) \<noteq> 40
   \<and> update (ProgressBar_init \<lparr>isatty = False, written = []\<rparr> 100 100 None) (Some 58) [] =
     Inr \<lparr>pb_total = 100, pb_width = 100,
          pb_term = \<lparr>t_stream = \<lparr>isatty = False,
             written = [lit ''['' @ replicate 57 9608 @ replicate 43 9617 @ lit '']  58.0%'' @ [10]]\<rparr>,
             is_tty = False\<rparr>,
          pb_current = 58, pb_started = True\<rparr>
   \<and> (57::int) \<noteq> \<lfloor>100 * 58 / 100 :: rat\<rfloor>"
  by (simp add: update_20_of_10 update_58_of_100)
     (simp add: ProgressBar_init_def Terminal_init_def writeln_def write_out_def)

text \<open>
  Claim C4, amended. When \<open>total\<close> is \<open>0\<close> and \<open>width\<close> fits a 64-bit \<open>ssize_t\<close>,
  \<open>update(0)\<close> raises nothing: no division takes place, \<open>pct\<close> is the int \<open>0\<close>, the bar
  is \<open>width\<close> unfilled glyphs (none for a negative \<open>width\<close>) and the percentage shown
  is \<open>  0.0%\<close>.
\<close>

theorem update_total_zero:
  assumes "pb_total pb = 0" and "- (2 ^ 63) \<le> pb_width pb" and "pb_width pb < 2 ^ 63"
  shows "update pb (Some 0) msg =
     Inr (pb\<lparr>pb_current := 0,
             pb_term := writeln (if pb_started pb then clear_line (move_up (pb_term pb) 1)
                                 else pb_term pb)
               (lit ''['' @ replicate (nat (pb_width pb)) 9617 @ lit '']   0.0%''
                @ (if msg = [] then [] else lit '' '' @ msg)),
             pb_started := True\<rparr>)"
  using assms by (intro update_zero_total) (simp_all add: fits_ssize_t_iff)

theorem update_total_zero_witness:
  "pb_total (ProgressBar_init \<lparr>isatty = False, written = []\<rparr> 0 40 None) = 0
   \<and> - (2 ^ 63) \<le> pb_width (ProgressBar_init \<lparr>isatty = False, written = []\<rparr> 0 40 None)
   \<and> pb_width (ProgressBar_init \<lparr>isatty = False, written = []\<rparr> 0 40 None) < 2 ^ 63
   \<and> update (ProgressBar_init \<lparr>isatty = False, written = []\<rparr> 0 40 None) (Some 0) [] =
       Inr \<lparr>pb_total = 0, pb_width = 40,
            pb_term = \<lparr>t_stream = \<lparr>isatty = False,
               written = [lit ''['' @ replicate 40 9617 @ lit '']   0.0%'' @ [10]]\<rparr>,
               is_tty = False\<rparr>,
            pb_current = 0, pb_started = True\<rparr>"
proof -
  have h: "pb_total (ProgressBar_init \<lparr>isatty = False, written = []\<rparr> 0 40 None) = 0"
    "- (2 ^ 63) \<le> pb_width (ProgressBar_init \<lparr>isatty = False, written = []\<rparr> 0 40 None)"
    "pb_width (ProgressBar_init \<lparr>isatty = False, written = []\<rparr> 0 40 None) < 2 ^ 63"
    by (simp_all add: ProgressBar_init_def)
  have "update (ProgressBar_init \<lparr>isatty = False, written = []\<rparr> 0 40 None) (Some 0) [] =
       Inr \<lparr>pb_total = 0, pb_width = 40,
            pb_term = \<lparr>t_stream = \<lparr>isatty = False,
               written = [lit ''['' @ replicate 40 9617 @ lit '']   0.0%'' @ [10]]\<rparr>,
               is_tty = False\<rparr>,
            pb_current = 0, pb_started = True\<rparr>"
    using update_total_zero [OF h, of "[]"]
    by (simp add: ProgressBar_init_def Terminal_init_def writeln_def write_out_def lit_def)
  with h show ?thesis
    by (intro conjI)
qed

text \<open>
  The claim as first stated fails for a width beyond \<open>ssize_t\<close>: with \<open>total = 0\<close> and
  \<open>width = 2 ** 63\<close>, \<open>update(0)\<close> raises \<open>OverflowError\<close> in the repetition of the
  unfilled glyph.
\<close>

theorem update_total_zero_counterexample:
  "update (ProgressBar_init \<lparr>isatty = False, written = []\<rparr> 0 (2 ^ 63) None) (Some 0) [] =
     Inl (OverflowError,
          \<lparr>pb_total = 0, pb_width = 2 ^ 63,
           pb_term = \<lparr>t_stream = \<lparr>isatty = False, written = []\<rparr>, is_tty = False\<rparr>,
           pb_current = 0, pb_started = True\<rparr>)"
proof -
  define pb where "pb = ProgressBar_init \<lparr>isatty = False, written = []\<rparr> 0 (2 ^ 63) None"
  have pb: "pb_total pb = 0" "pb_width pb = 2 ^ 63" "\<not> pb_started pb"
    by (simp_all add: pb_def ProgressBar_init_def)
  have "pb_total pb \<le> 0"
    by (simp add: pb)
  moreover have "\<not> fits_ssize_t (pb_width pb)"
    by (simp add: pb fits_ssize_t_iff)
  ultimately have "update pb (Some 0) [] =
     Inl (OverflowError,
          pb\<lparr>pb_current := 0,
             pb_term := (if pb_started pb then clear_line (move_up (pb_term pb) 1)
                         else pb_term pb),
             pb_started := True\<rparr>)"
    by (rule update_zero_total_overflow)
  then show ?thesis
    by (simp add: pb_def ProgressBar_init_def Terminal_init_def)
qed

lemma update_keeps_total:
  "(case update pb current message of
      Inl (e, pb') \<Rightarrow> pb_total pb' = pb_total pb
    | Inr pb' \<Rightarrow> pb_total pb' = pb_total pb)"
  by (simp add: update_def Let_def split: sum.splits option.splits prod.splits)

text \<open>
  Claim C7. \<open>finish(message)\<close> is \<open>update(total, message)\<close>: the same result, state and
  output, an exception included. \<open>total\<close> is the value given to the constructor, which
  \<open>update\<close> never changes.
\<close>

theorem finish_is_update:
  "finish pb message = update pb (Some (pb_total pb)) message
   \<and> pb_total (ProgressBar_init so tot wid trm) = tot
   \<and> (case update pb current message of
         Inl (e, pb') \<Rightarrow> pb_total pb' = pb_total pb
       | Inr pb' \<Rightarrow> pb_total pb' = pb_total pb)"
  using update_keeps_total [of pb current message]
  by (simp add: finish_def ProgressBar_init_def)

lemma update_overshoot_aux:
  assumes t: "0 < pb_total pb" and ct: "pb_total pb < c"
    and w0: "0 < pb_width pb" and w53: "pb_width pb \<le> 2 ^ 53"
    and bound: "pb_width pb * c \<le> pb_total pb * 2 ^ 62"
  defines "pct \<equiv> nearest (of_int c / of_int (pb_total pb))"
  defines "fm \<equiv> nearest (of_int (pb_width pb) * pct)"
  defines "n \<equiv> rne (nearest (pct * 100) * 10)"
  shows "update pb (Some c) msg =
      Inr (pb\<lparr>pb_current := c,
              pb_term := writeln (if pb_started pb then clear_line (move_up (pb_term pb) 1)
                                  else pb_term pb)
                (lit ''['' @ replicate (nat \<lfloor>fm\<rfloor>) 9608 @ lit ''] ''
                 @ rjust (digits (n div 10) @ lit ''.'' @ digits (n mod 10)) 5 @ lit ''%''
                 @ (if msg = [] then [] else lit '' '' @ msg)),
              pb_started := True\<rparr>)"
    and "pb_width pb \<le> \<lfloor>fm\<rfloor>"
    and "\<lfloor>fm\<rfloor> < 2 ^ 63"
    and "py_repeat UNFILLED (pb_width pb - \<lfloor>fm\<rfloor>) = Inr []"
    and "1000 \<le> n"
proof -
  define q :: rat where "q = of_int c / of_int (pb_total pb)"
  define x :: rat where "x = of_int (pb_width pb) * q"
  have tpos: "(0::rat) < of_int (pb_total pb)"
    using t by simp
  have "(of_int (pb_total pb) :: rat) \<le> of_int c"
    using ct by simp
  then have q1: "1 \<le> q"
    using tpos by (simp add: q_def pos_le_divide_eq)
  have q0: "0 \<le> q"
    using q1 by simp
  have wr0: "(0::rat) \<le> of_int (pb_width pb)" and wr1: "(1::rat) \<le> of_int (pb_width pb)"
    using w0 by simp_all
  have "(of_int (pb_width pb * c) :: rat) \<le> of_int (pb_total pb * 2 ^ 62)"
    using bound by (simp only: of_int_le_iff)
  then have "of_int (pb_width pb) * of_int c \<le> 2 powi 62 * (of_int (pb_total pb) :: rat)"
    by (simp add: mult.commute)
  then have "of_int (pb_width pb) * of_int c / of_int (pb_total pb) \<le> (2 powi 62 :: rat)"
    using tpos by (simp only: pos_divide_le_eq)
  then have x62: "x \<le> 2 powi 62"
    by (simp add: x_def q_def)
  have "1 * q \<le> of_int (pb_width pb) * q"
    using wr1 q0 by (rule mult_right_mono)
  then have "q \<le> x"
    by (simp add: x_def)
  then have q62: "q \<le> 2 powi 62"
    using x62 by (rule order_trans)
  have p1: "1 \<le> pct"
    using nearest_ge_int [of 1 q] q1 by (simp add: pct_def q_def)
  have p0: "0 \<le> pct"
    using p1 by simp
  have p62: "pct \<le> 2 powi 62"
    using nearest_le_pow2 [OF q0 q62] by (simp add: pct_def q_def)
  have e1: "(2::rat) powi 62 \<le> 2 powi 1023" and e2: "(2::rat) powi 63 \<le> 2 powi 1023"
    and e3: "(2::rat) powi 69 \<le> 2 powi 1023"
    by (simp_all only: pow2_le_iff)
  have "pct \<le> 2 powi 1023"
    using p62 e1 by (rule order_trans)
  then have rq: "round_mag (\<bar>of_int c\<bar> / \<bar>of_int (pb_total pb)\<bar>) = Some pct"
    using t ct round_mag_bounded [of q] by (simp add: pct_def q_def)
  have w0': "0 \<le> pb_width pb"
    using w0 by simp
  have wn: "nearest (of_int (pb_width pb)) = of_int (pb_width pb)"
    using w0' w53 by (rule nearest_of_int)
  have "(of_int (pb_width pb) :: rat) \<le> of_int (2 ^ 53)"
    using w53 by (simp only: of_int_le_iff)
  then have w53r: "(of_int (pb_width pb) :: rat) \<le> 2 powi 53"
    by simp
  have "(2::rat) powi 53 \<le> 2 powi 1023"
    by (simp only: pow2_le_iff)
  with w53r have "(of_int (pb_width pb) :: rat) \<le> 2 powi 1023"
    by (rule order_trans)
  then have rw: "round_mag \<bar>of_int (pb_width pb)\<bar> = Some (of_int (pb_width pb))"
    using w0 round_mag_bounded [of "of_int (pb_width pb)"] by (simp add: wn)
  have wp_lo: "of_int (pb_width pb) \<le> of_int (pb_width pb) * pct"
    using wr0 p1 by (simp add: mult_le_cancel_left1)
  have "\<bar>pct - q\<bar> \<le> q * 2 powi (- 53)"
    using q1 by (simp only: pct_def q_def [symmetric] nearest_error_rel)
  then have "pct \<le> q + q * 2 powi (- 53)"
    by linarith
  then have "of_int (pb_width pb) * pct \<le> of_int (pb_width pb) * (q + q * 2 powi (- 53))"
    using wr0 by (rule mult_left_mono)
  also have "\<dots> = x + x * 2 powi (- 53)"
    by (simp add: x_def algebra_simps)
  also have "\<dots> \<le> 2 powi 62 + 2 powi 62 * 2 powi (- 53)"
    using x62 by (intro add_mono mult_right_mono) simp_all
  also have "\<dots> \<le> of_int 3 * 2 powi 61"
    by simp
  finally have wp_hi: "of_int (pb_width pb) * pct \<le> of_int 3 * 2 powi 61" .
  have wp0: "0 \<le> of_int (pb_width pb) * pct"
    using wr0 p0 by simp
  have f_lo: "of_int (pb_width pb) \<le> fm"
    using nearest_ge_int [OF w0' wp_lo w53] by (simp add: fm_def)
  have "nearest (of_int 3 * 2 powi 61) = of_int 3 * 2 powi 61"
    by (rule nearest_representable) simp_all
  then have f_hi: "fm \<le> of_int 3 * 2 powi 61"
    using nearest_mono [OF wp0 wp_hi] by (simp only: fm_def)
  have "of_int 3 * 2 powi 61 < (2::rat) powi 63"
    by simp
  with f_hi have f63: "fm < 2 powi 63"
    by (rule le_less_trans)
  then have "fm \<le> 2 powi 1023"
    using e2 by simp
  then have rf: "round_mag (of_int (pb_width pb) * pct) = Some fm"
    using round_mag_bounded [of "of_int (pb_width pb) * pct"] by (simp add: fm_def)
  define m where "m = nearest (pct * 100)"
  have h_lo: "of_int 100 \<le> pct * 100"
    using p1 by simp
  have "pct * 100 \<le> 2 powi 62 * 2 powi 7"
    using p62 p0 by (intro mult_mono) simp_all
  also have "\<dots> = 2 powi 69"
    using pow2_split [of 62 7] by simp
  finally have h_hi: "pct * 100 \<le> 2 powi 69" .
  have h0: "0 \<le> pct * 100"
    using p0 by simp
  have m_lo: "100 \<le> m"
    using nearest_ge_int [of 100 "pct * 100"] h_lo by (simp add: m_def)
  have "m \<le> 2 powi 69"
    using nearest_le_pow2 [OF h0 h_hi] by (simp add: m_def)
  then have "m \<le> 2 powi 1023"
    using e3 by (rule order_trans)
  then have rm: "round_mag (pct * 100) = Some m"
    using round_mag_bounded [of "pct * 100"] by (simp add: m_def)
  show fl: "pb_width pb \<le> \<lfloor>fm\<rfloor>"
    using f_lo by (simp add: le_floor_iff)
  have "fm < of_int (2 ^ 63)"
    using f63 by simp
  then show fh: "\<lfloor>fm\<rfloor> < 2 ^ 63"
    by (simp only: floor_less_iff)
  have z63: "- (2 ^ 63) \<le> (0::int)"
    by simp
  have ff: "fits_ssize_t \<lfloor>fm\<rfloor>"
    unfolding fits_ssize_t_iff using fl fh w0 z63 by linarith
  have fu: "fits_ssize_t (pb_width pb - \<lfloor>fm\<rfloor>)"
    unfolding fits_ssize_t_iff using fl fh w0 z63 by linarith
  show "py_repeat UNFILLED (pb_width pb - \<lfloor>fm\<rfloor>) = Inr []"
    using py_repeat_UNFILLED [OF fu] fl by simp
  have "rne (of_int 1000) \<le> rne (m * 10)"
    using m_lo by (intro rne_mono) simp
  then show "1000 \<le> n"
    by (simp only: rne_of_int n_def m_def)
  have fd: "\<lfloor>fm\<rfloor> = (if (pb_width pb < 0) \<noteq> (c < 0) then - \<lfloor>fm\<rfloor> else \<lfloor>fm\<rfloor>)"
    using t ct w0 by simp
  have "update pb (Some c) msg =
      Inr (pb\<lparr>pb_current := c,
              pb_term := writeln (if pb_started pb then clear_line (move_up (pb_term pb) 1)
                                  else pb_term pb)
               (lit ''[''
                @ replicate (nat \<lfloor>fm\<rfloor>) 9608
                @ replicate (nat (pb_width pb - \<lfloor>fm\<rfloor>)) 9617
                @ lit ''] ''
                @ rjust (float_fixed1 (float_mul (Finite (c < 0) pct) (Finite False 100))) 5
                @ lit ''%''
                @ (if msg = [] then [] else lit '' '' @ msg)),
              pb_started := True\<rparr>)"
    using t rq rw rf fd ff fu by (rule update_float)
  moreover have "\<not> c < 0"
    using t ct by simp
  ultimately show "update pb (Some c) msg =
      Inr (pb\<lparr>pb_current := c,
              pb_term := writeln (if pb_started pb then clear_line (move_up (pb_term pb) 1)
                                  else pb_term pb)
                (lit ''['' @ replicate (nat \<lfloor>fm\<rfloor>) 9608 @ lit ''] ''
                 @ rjust (digits (n div 10) @ lit ''.'' @ digits (n mod 10)) 5 @ lit ''%''
                 @ (if msg = [] then [] else lit '' '' @ msg)),
              pb_started := True\<rparr>)"
    using rm fl
    by (simp add: n_def m_def Let_def)
qed

text \<open>
  Claim C10, amended. For \<open>total > 0\<close>, \<open>0 < width \<le> 2^53\<close>, \<open>current > total\<close> and
  \<open>width * current / total \<le> 2^62\<close>, \<open>update(current)\<close> raises nothing and writes
  \<open>filled = int(width * pct)\<close> filled glyphs, with \<open>pct\<close> the float \<open>current / total\<close>, and
  no unfilled glyph: \<open>filled\<close> is at least \<open>width\<close> and below \<open>2^63\<close>, and the negative
  or zero count \<open>width - filled\<close> gives the empty string. The bar has at least
  \<open>width\<close> characters, and the percentage shown is at least \<open>100.0\<close>. \<open>filled\<close> differs
  from \<open>floor(width * current / total)\<close> by at most one when
  \<open>width * current / total \<le> 2^51\<close>.
\<close>

theorem update_overshoot:
  assumes "0 < pb_total pb" and "pb_total pb < c"
    and "0 < pb_width pb" and "pb_width pb \<le> 2 ^ 53"
    and "pb_width pb * c \<le> pb_total pb * 2 ^ 62"
  shows "let pct = nearest (of_int c / of_int (pb_total pb));
             filled = \<lfloor>nearest (of_int (pb_width pb) * pct)\<rfloor>;
             n = rne (nearest (pct * 100) * 10)
         in update pb (Some c) msg =
              Inr (pb\<lparr>pb_current := c,
                      pb_term := writeln (if pb_started pb then clear_line (move_up (pb_term pb) 1)
                                          else pb_term pb)
                        (lit ''['' @ replicate (nat filled) 9608 @ lit ''] ''
                         @ rjust (digits (n div 10) @ lit ''.'' @ digits (n mod 10)) 5 @ lit ''%''
                         @ (if msg = [] then [] else lit '' '' @ msg)),
                      pb_started := True\<rparr>)
            \<and> pb_width pb \<le> filled
            \<and> filled < 2 ^ 63
            \<and> py_repeat UNFILLED (pb_width pb - filled) = Inr []
            \<and> 1000 \<le> n
            \<and> (pb_width pb * c \<le> pb_total pb * 2 ^ 51
                \<longrightarrow> \<bar>filled - \<lfloor>of_int (pb_width pb) * of_int c / of_int (pb_total pb) :: rat\<rfloor>\<bar> \<le> 1)"
  unfolding Let_def
  using update_overshoot_aux(1) [OF assms] update_overshoot_aux(2) [OF assms]
    update_overshoot_aux(3) [OF assms] update_overshoot_aux(4) [OF assms]
    update_overshoot_aux(5) [OF assms] overshoot_near_floor [OF assms(1,2,3)]
  by (intro conjI impI)

theorem update_overshoot_witness:
  "0 < pb_total (ProgressBar_init \<lparr>isatty = False, written = []\<rparr> 10 40 None)
   \<and> pb_total (ProgressBar_init \<lparr>isatty = False, written = []\<rparr> 10 40 None) < 25
   \<and> 0 < pb_width (ProgressBar_init \<lparr>isatty = False, written = []\<rparr> 10 40 None)
   \<and> pb_width (ProgressBar_init \<lparr>isatty = False, written = []\<rparr> 10 40 None) \<le> 2 ^ 53
   \<and> pb_width (ProgressBar_init \<lparr>isatty = False, written = []\<rparr> 10 40 None) * 25
       \<le> pb_total (ProgressBar_init \<lparr>isatty = False, written = []\<rparr> 10 40 None) * 2 ^ 62
   \<and> pb_width (ProgressBar_init \<lparr>isatty = False, written = []\<rparr> 10 40 None) * 25
       \<le> pb_total (ProgressBar_init \<lparr>isatty = False, written = []\<rparr> 10 40 None) * 2 ^ 51
   \<and> update (ProgressBar_init \<lparr>isatty = False, written = []\<rparr> 10 40 None) (Some 25) (lit ''x'') =
       Inr \<lparr>pb_total = 10, pb_width = 40,
            pb_term = \<lparr>t_stream = \<lparr>isatty = False,
               written = [lit ''['' @ replicate 100 9608 @ lit ''] 250.0% x'' @ [10]]\<rparr>,
               is_tty = False\<rparr>,
            pb_current = 25, pb_started = True\<rparr>"
proof -
  define pb where "pb = ProgressBar_init \<lparr>isatty = False, written = []\<rparr> 10 40 None"
  have pb: "pb_total pb = 10" "pb_width pb = 40" "\<not> pb_started pb"
    by (simp_all add: pb_def ProgressBar_init_def)
  have h: "0 < pb_total pb" "pb_total pb < 25" "0 < pb_width pb" "pb_width pb \<le> 2 ^ 53"
    "pb_width pb * 25 \<le> pb_total pb * 2 ^ 62"
    by (simp_all add: pb)
  have h51: "pb_width pb * 25 \<le> pb_total pb * 2 ^ 51"
    by (simp add: pb)
  have "of_int 25 / of_int (pb_total pb) = (5 / 2 :: rat)"
    by (simp add: pb)
  moreover have "nearest (5 / 2) = 5 / 2"
    using nearest_representable [of 5 "- 1"] by simp
  ultimately have pct: "nearest (of_int 25 / of_int (pb_total pb)) = 5 / 2"
    by (simp only:)
  have "of_int (pb_width pb) * (5 / 2) = (100::rat)"
    by (simp add: pb)
  then have fm: "nearest (of_int (pb_width pb) * (5 / 2)) = 100"
    by (simp only: nearest_100)
  have "5 / 2 * 100 = (250::rat)"
    by simp
  moreover have "nearest 250 = 250"
    using nearest_of_int [of 250] by simp
  ultimately have m: "nearest (5 / 2 * 100) = 250"
    by (simp only:)
  have n: "rne (250 * 10) = 2500"
    using rne_of_int [of 2500] by simp
  have "update pb (Some 25) (lit ''x'') =
      Inr (pb\<lparr>pb_current := 25,
              pb_term := writeln (if pb_started pb then clear_line (move_up (pb_term pb) 1)
                                  else pb_term pb)
                (lit ''['' @ replicate (nat \<lfloor>100::rat\<rfloor>) 9608 @ lit ''] ''
                 @ rjust (digits (2500 div 10) @ lit ''.'' @ digits (2500 mod 10)) 5 @ lit ''%''
                 @ (if lit ''x'' = [] then [] else lit '' '' @ lit ''x'')),
              pb_started := True\<rparr>)"
    using update_overshoot [OF h, of "lit ''x''"]
    unfolding Let_def pct fm m n by (rule conjunct1)
  then have "update pb (Some 25) (lit ''x'') =
       Inr \<lparr>pb_total = 10, pb_width = 40,
            pb_term = \<lparr>t_stream = \<lparr>isatty = False,
               written = [lit ''['' @ replicate 100 9608 @ lit ''] 250.0% x'' @ [10]]\<rparr>,
               is_tty = False\<rparr>,
            pb_current = 25, pb_started = True\<rparr>"
    by (simp add: pb_def ProgressBar_init_def Terminal_init_def writeln_def write_out_def
        digits.simps rjust_def lit_def)
  with h h51 show ?thesis
    unfolding pb_def by (intro conjI)
qed

lemma update_10001_of_10000:
  "update (ProgressBar_init so 10000 40 trm) (Some 10001) [] =
     Inr ((ProgressBar_init so 10000 40 trm)
            \<lparr>pb_current := 10001,
             pb_term := writeln (pb_term (ProgressBar_init so 10000 40 trm))
                (lit ''['' @ replicate 40 9608 @ lit ''] 100.0%''),
             pb_started := True\<rparr>)"
proof -
  have "update (ProgressBar_init so 10000 40 trm) (Some 10001) [] =
     Inr ((ProgressBar_init so 10000 40 trm)
            \<lparr>pb_current := 10001,
             pb_term := writeln (pb_term (ProgressBar_init so 10000 40 trm))
               (lit ''['' @ replicate (nat 40) 9608 @ replicate (nat (40 - 40)) 9617
                @ lit ''] ''
                @ rjust ((if (10001::int) < 0 then lit ''-'' else [])
                         @ digits (1000 div 10) @ lit ''.'' @ digits (1000 mod 10)) 5
                @ lit ''%''
                @ (if ([]::ustr) = [] then [] else lit '' '' @ [])),
             pb_started := True\<rparr>)"
  proof (rule update_init_value)
    show "\<bar>of_int 10001\<bar> / \<bar>of_int 10000\<bar> = (10001 / 10000 :: rat)" by simp
    show "nearest (10001 / 10000) = 4504049987333233 / 4503599627370496"
      by (rule nearest_10001)
    show "nearest \<bar>of_int 40\<bar> = 40" by (simp add: nearest_40)
    show "nearest (40 * (4504049987333233 / 4503599627370496)) = 5630062484166541 / 140737488355328"
      by (rule nearest_10001_w)
    show "nearest (4504049987333233 / 4503599627370496 * 100) = 7037578105208177 / 70368744177664"
      by (rule nearest_10001_100)
    show "rne (7037578105208177 / 70368744177664 * 10) = 1000" by (rule rne_10001)
    show "(if ((40::int) < 0) \<noteq> ((10001::int) < 0) then - \<lfloor>5630062484166541 / 140737488355328 :: rat\<rfloor>
           else \<lfloor>5630062484166541 / 140737488355328 :: rat\<rfloor>) = 40"
      by (simp add: floor_10001)
  qed (simp_all add: fits_ssize_t_iff)
  then show ?thesis
    by (simp add: digits.simps rjust_def lit_def)
qed

lemma update_huge:
  "update (ProgressBar_init so 1 40 trm) (Some (2 ^ 1024)) [] =
     Inl (OverflowError,
          (ProgressBar_init so 1 40 trm)\<lparr>pb_current := 2 ^ 1024, pb_started := True\<rparr>)"
proof -
  define pb where "pb = ProgressBar_init so 1 40 trm"
  have pb: "pb_total pb = 1" "\<not> pb_started pb"
    by (simp_all add: pb_def ProgressBar_init_def)
  have t: "0 < pb_total pb"
    by (simp add: pb)
  have n: "nearest (2 powi 1024) = 2 powi 1024"
    by (rule nearest_pow2) simp
  have "round_mag (2 powi 1024) = None"
    unfolding round_mag_def n by simp
  moreover have "\<bar>of_int (2 ^ 1024)\<bar> / \<bar>of_int (pb_total pb)\<bar> = (2::rat) powi 1024"
    by (simp add: pb)
  ultimately have "round_mag (\<bar>of_int (2 ^ 1024)\<bar> / \<bar>of_int (pb_total pb)\<bar>) = None"
    by (simp only:)
  with t have "update pb (Some (2 ^ 1024)) [] =
     Inl (OverflowError,
          pb\<lparr>pb_current := 2 ^ 1024,
             pb_term := (if pb_started pb then clear_line (move_up (pb_term pb) 1)
                         else pb_term pb),
             pb_started := True\<rparr>)"
    by (rule update_overflow)
  then show ?thesis
    unfolding pb_def [symmetric] by (simp add: pb)
qed

lemma nearest_23_20: "nearest (23 / 20) = 2589569785738035 / 2251799813685248"
  by code_simp

lemma nearest_115_prod:
  "nearest (100 * (2589569785738035 / 2251799813685248)) = 8092405580431359 / 70368744177664"
  by code_simp

lemma rne_115: "rne (8092405580431359 / 70368744177664 * 10) = 1150"
  by code_simp

lemma floor_115: "\<lfloor>8092405580431359 / 70368744177664 :: rat\<rfloor> = 114"
  by code_simp

lemma update_115_of_100:
  "update (ProgressBar_init so 100 100 trm) (Some 115) [] =
     Inr ((ProgressBar_init so 100 100 trm)
            \<lparr>pb_current := 115,
             pb_term := writeln (pb_term (ProgressBar_init so 100 100 trm))
                (lit ''['' @ replicate 114 9608 @ lit ''] 115.0%''),
             pb_started := True\<rparr>)"
proof -
  have "update (ProgressBar_init so 100 100 trm) (Some 115) [] =
     Inr ((ProgressBar_init so 100 100 trm)
            \<lparr>pb_current := 115,
             pb_term := writeln (pb_term (ProgressBar_init so 100 100 trm))
               (lit ''['' @ replicate (nat 114) 9608 @ replicate (nat (100 - 114)) 9617
                @ lit ''] ''
                @ rjust ((if (115::int) < 0 then lit ''-'' else [])
                         @ digits (1150 div 10) @ lit ''.'' @ digits (1150 mod 10)) 5
                @ lit ''%''
                @ (if ([]::ustr) = [] then [] else lit '' '' @ [])),
             pb_started := True\<rparr>)"
  proof (rule update_init_value)
    show "\<bar>of_int 115\<bar> / \<bar>of_int 100\<bar> = (23 / 20 :: rat)" by simp
    show "nearest (23 / 20) = 2589569785738035 / 2251799813685248"
      by (rule nearest_23_20)
    show "nearest \<bar>of_int 100\<bar> = 100" by (simp add: nearest_100)
    show "nearest (100 * (2589569785738035 / 2251799813685248)) = 8092405580431359 / 70368744177664"
      by (rule nearest_115_prod)
    show "nearest (2589569785738035 / 2251799813685248 * 100) = 8092405580431359 / 70368744177664"
      using nearest_115_prod by (simp only: mult.commute)
    show "rne (8092405580431359 / 70368744177664 * 10) = 1150" by (rule rne_115)
    show "(if ((100::int) < 0) \<noteq> ((115::int) < 0) then - \<lfloor>8092405580431359 / 70368744177664 :: rat\<rfloor>
           else \<lfloor>8092405580431359 / 70368744177664 :: rat\<rfloor>) = 114"
      by (simp add: floor_115)
  qed (simp_all add: fits_ssize_t_iff)
  then show ?thesis
    by (simp add: digits.simps rjust_def lit_def)
qed

lemma update_too_many_glyphs:
  "update (ProgressBar_init so 1 1 trm) (Some (2 ^ 63)) [] =
     Inl (OverflowError,
          (ProgressBar_init so 1 1 trm)\<lparr>pb_current := 2 ^ 63, pb_started := True\<rparr>)"
proof -
  define pb where "pb = ProgressBar_init so 1 1 trm"
  have pb: "pb_total pb = 1" "pb_width pb = 1" "\<not> pb_started pb"
    by (simp_all add: pb_def ProgressBar_init_def)
  have t: "0 < pb_total pb"
    by (simp add: pb)
  have n: "nearest (2 powi 63) = 2 powi 63"
    by (rule nearest_pow2) simp
  have r: "round_mag (2 powi 63) = Some (2 powi 63)"
    using n by (rule round_mag_exact) (simp only: pow2_less_iff)
  have "\<bar>of_int (2 ^ 63)\<bar> / \<bar>of_int (pb_total pb)\<bar> = (2::rat) powi 63"
    by (simp add: pb)
  then have rq: "round_mag (\<bar>of_int (2 ^ 63)\<bar> / \<bar>of_int (pb_total pb)\<bar>) = Some (2 powi 63)"
    using r by (simp only:)
  have "\<bar>of_int (pb_width pb)\<bar> = (1::rat)"
    by (simp add: pb)
  moreover have "round_mag 1 = Some 1"
    using nearest_1 by (rule round_mag_exact) simp
  ultimately have rw: "round_mag \<bar>of_int (pb_width pb)\<bar> = Some 1"
    by (simp only:)
  have "1 * 2 powi 63 = (2::rat) powi 63"
    by simp
  then have rf: "round_mag (1 * 2 powi 63) = Some (2 powi 63)"
    using r by (simp only:)
  have fd: "(2 ^ 63 :: int) =
      (if (pb_width pb < 0) \<noteq> ((2 ^ 63 :: int) < 0) then - \<lfloor>(2::rat) powi 63\<rfloor> else \<lfloor>(2::rat) powi 63\<rfloor>)"
    by (simp add: pb)
  have nf: "\<not> fits_ssize_t (2 ^ 63)"
    by (simp add: fits_ssize_t_iff)
  have "update pb (Some (2 ^ 63)) [] =
     Inl (OverflowError,
          pb\<lparr>pb_current := 2 ^ 63,
             pb_term := (if pb_started pb then clear_line (move_up (pb_term pb) 1)
                         else pb_term pb),
             pb_started := True\<rparr>)"
    using t rq rw rf fd nf by (rule update_repeat_overflow)
  then show ?thesis
    unfolding pb_def [symmetric] by (simp add: pb)
qed

text \<open>
  The claim as first stated fails in each of its parts. With \<open>total = 10000\<close> and
  \<open>width = 40\<close>, \<open>update(10001)\<close> writes a bar of exactly 40 glyphs and the text
  \<open>100.0%\<close>. With \<open>total = 100\<close> and \<open>width = 100\<close>, \<open>update(115)\<close> writes 114 filled
  glyphs, while \<open>floor(100 * 115 / 100) = 115\<close>. With \<open>total = 1\<close> and \<open>width = 1\<close>,
  \<open>update(2 ** 63)\<close> raises \<open>OverflowError\<close> in the repetition of the filled glyph, and
  \<open>update(2 ** 1024)\<close> raises it in the division.
\<close>

theorem update_overshoot_counterexample:
  "update (ProgressBar_init \<lparr>isatty = False, written = []\<rparr> 10000 40 None) (Some 10001) [] =
     Inr \<lparr>pb_total = 10000, pb_width = 40,
          pb_term = \<lparr>t_stream = \<lparr>isatty = False,
             written = [lit ''['' @ replicate 40 9608 @ lit ''] 100.0%'' @ [10]]\<rparr>,
             is_tty = False\<rparr>,
          pb_current = 10001, pb_started = True\<rparr>
   \<and> \<not> 40 < length (replicate 40 (9608::nat))
   \<and> update (ProgressBar_init \<lparr>isatty = False, written = []\<rparr> 100 100 None) (Some 115) [] =
     Inr \<lparr>pb_total = 100, pb_width = 100,
          pb_term = \<lparr>t_stream = \<lparr>isatty = False,
             written = [lit ''['' @ replicate 114 9608 @ lit ''] 115.0%'' @ [10]]\<rparr>,
             is_tty = False\<rparr>,
          pb_current = 115, pb_started = True\<rparr>
   \<and> (114::int) \<noteq> \<lfloor>100 * 115 / 100 :: rat\<rfloor>
   \<and> update (ProgressBar_init \<lparr>isatty = False, written = []\<rparr> 1 1 None) (Some (2 ^ 63)) [] =
     Inl (OverflowError,
          \<lparr>pb_total = 1, pb_width = 1,
           pb_term = \<lparr>t_stream = \<lparr>isatty = False, written = []\<rparr>, is_tty = False\<rparr>,
           pb_current = 2 ^ 63, pb_started = True\<rparr>)
   \<and> update (ProgressBar_init \<lparr>isatty = False, written = []\<rparr> 1 40 None) (Some (2 ^ 1024)) [] =
     Inl (OverflowError,
          \<lparr>pb_total = 1, pb_width = 40,
           pb_term = \<lparr>t_stream = \<lparr>isatty = False, written = []\<rparr>, is_tty = False\<rparr>,
           pb_current = 2 ^ 1024, pb_started = True\<rparr>)"
  using update_10001_of_10000 [of "\<lparr>isatty = False, written = []\<rparr>" None]
    update_115_of_100 [of "\<lparr>isatty = False, written = []\<rparr>" None]
    update_too_many_glyphs [of "\<lparr>isatty = False, written = []\<rparr>" None]
    update_huge [of "\<lparr>isatty = False, written = []\<rparr>" None]
  by (simp add: ProgressBar_init_def Terminal_init_def writeln_def write_out_def)

end
